theory Spec2Isabelle
  imports Complex_Main "HOL-Library.Monad_Syntax"
begin

section \<open>Memory model\<close>

text \<open>
  The program \<^verbatim>\<open>wave_sim.c\<close> works on three heap-allocated arrays of type
  \<^verbatim>\<open>double**\<close>, reached through the three pointer variables \<^verbatim>\<open>Un_p1\<close>,
  \<^verbatim>\<open>Un0\<close> and \<^verbatim>\<open>Un_m1\<close>. An array is a list of rows, the heap is a partial map
  from addresses to arrays, and a pointer is an address. Values of type \<^verbatim>\<open>double\<close>
  are modelled by the real numbers: rounding, infinities and NaN are outside the model.
  Values of type \<^verbatim>\<open>int\<close> are modelled by unbounded integers: the program counts
  no further than the grid dimensions and the number of steps. Allocation is assumed to
  succeed.

  An access outside an allocated array is undefined behaviour in C. Every access of the
  model is checked and yields \<open>None\<close> in that case, so that a run of the model that
  returns \<open>Some\<close> has performed valid accesses only.
\<close>

type_synonym grid = "real list list"
type_synonym addr = nat
type_synonym heap = "addr \<Rightarrow> grid option"

definition in_bounds :: "grid \<Rightarrow> int \<Rightarrow> int \<Rightarrow> bool" where
  "in_bounds g i j \<longleftrightarrow>
     0 \<le> i \<and> i < int (length g) \<and> 0 \<le> j \<and> j < int (length (g ! nat i))"

text \<open>Reading \<^verbatim>\<open>array[i][j]\<close>.\<close>

definition load :: "heap \<Rightarrow> addr \<Rightarrow> int \<Rightarrow> int \<Rightarrow> real option" where
  "load h p i j =
     (case h p of
        None \<Rightarrow> None
      | Some g \<Rightarrow> if in_bounds g i j then Some (g ! nat i ! nat j) else None)"

text \<open>The assignment \<^verbatim>\<open>array[i][j] = v\<close>.\<close>

definition store :: "heap \<Rightarrow> addr \<Rightarrow> int \<Rightarrow> int \<Rightarrow> real \<Rightarrow> heap option" where
  "store h p i j v =
     (case h p of
        None \<Rightarrow> None
      | Some g \<Rightarrow>
          if in_bounds g i j
          then Some (h(p \<mapsto> g[nat i := (g ! nat i)[nat j := v]]))
          else None)"

text \<open>
  A \<^verbatim>\<open>for (int i = i0; i < n; i++)\<close> loop whose body may fail. The counter is the
  first argument.
\<close>

function for_loop :: "int \<Rightarrow> int \<Rightarrow> (int \<Rightarrow> 'a \<Rightarrow> 'a option) \<Rightarrow> 'a \<Rightarrow> 'a option" where
  "for_loop i n body s =
     (if i < n
      then (case body i s of None \<Rightarrow> None | Some s' \<Rightarrow> for_loop (i + 1) n body s')
      else Some s)"
  by pat_completeness auto
termination
  by (relation "measure (\<lambda>(i, n, body, s). nat (n - i))") auto

declare for_loop.simps [simp del]


section \<open>Configuration\<close>

text \<open>
  The macros of \<^verbatim>\<open>wave_sim.c\<close>. The source fixes them at compile time; they are the
  fields of a record here, so that statements can range over configurations, and
  \<open>wave_sim_c\<close> below is the configuration of the source. The factor \<^verbatim>\<open>1\<close> that
  the source writes in front of the pulse is the field \<open>amplitude\<close>. Division is the
  division of the real numbers; it agrees with the arithmetic of the program where the
  divisor is not zero.
\<close>

record params =
  Lx :: real
  Ly :: real
  dx :: real
  dy :: real
  n_stop :: int
  l :: real
  w :: real
  T0 :: real
  c :: int
  xs1 :: int
  ys1 :: int
  amplitude :: real

text \<open>
  The conversion \<^verbatim>\<open>(int) x\<close> of a \<^verbatim>\<open>double\<close> discards the fractional part. The
  model applies it to the real quotient; the result is the one of the program where the
  quotient computed in \<^verbatim>\<open>double\<close> lies between the same two integers and in the range
  of \<^verbatim>\<open>int\<close>, as it does for \<open>wave_sim_c\<close> (83.33, 84 nodes) and for the sample
  configurations below.
\<close>

definition int_of_double :: "real \<Rightarrow> int" where
  "int_of_double x = (if 0 \<le> x then \<lfloor>x\<rfloor> else \<lceil>x\<rceil>)"

definition Nx :: "params \<Rightarrow> int" where
  "Nx P = int_of_double (Lx P / dx P) + 1"

definition Ny :: "params \<Rightarrow> int" where
  "Ny P = int_of_double (Ly P / dy P) + 1"

definition dt :: "params \<Rightarrow> real" where
  "dt P = 1 / (of_int (c P) * sqrt ((1 / (dx P * dx P)) + (1 / (dy P * dy P))))"

definition Ox :: "params \<Rightarrow> real" where
  "Ox P = (of_int (c P) * dt P) / dx P"

definition Oy :: "params \<Rightarrow> real" where
  "Oy P = (of_int (c P) * dt P) / dy P"

definition wave_sim_c :: params where
  "wave_sim_c =
     \<lparr>Lx = 10 / 10 ^ 6, Ly = 10 / 10 ^ 6, dx = 12 / 10 ^ 8, dy = 12 / 10 ^ 8,
      n_stop = 150, l = 1 / 10 ^ 6, w = 18 / 10 ^ 15, T0 = 4 / 10 ^ 15,
      c = 299792458, xs1 = 50, ys1 = 50, amplitude = 1\<rparr>"

section \<open>Terminal output\<close>

datatype color = RED | GREEN | YELLOW | BLUE | MAGNETA | CYAN | WHITE | BLACK

definition getColor :: "real \<Rightarrow> color" where
  "getColor v =
     (let blackThreshold = 5 / 100 in
      if \<bar>v\<bar> < blackThreshold then BLACK
      else
        let norm = (v + 1) / 2;
            colorIndex = int_of_double (norm * 7)
        in if colorIndex = 0 then RED
           else if colorIndex = 1 then GREEN
           else if colorIndex = 2 then YELLOW
           else if colorIndex = 3 then BLUE
           else if colorIndex = 4 then MAGNETA
           else if colorIndex = 5 then CYAN
           else if colorIndex = 6 then WHITE
           else BLACK)"

section \<open>Program state\<close>

text \<open>
  The heap, the three pointer variables of \<^verbatim>\<open>main\<close>, and the frames printed so far
  (one row of colours per row of the array).
\<close>

record state =
  mem :: heap
  Un_p1 :: addr
  Un0 :: addr
  Un_m1 :: addr
  terminal :: "color list list list"

definition printWave :: "state \<Rightarrow> addr \<Rightarrow> int \<Rightarrow> int \<Rightarrow> state option" where
  "printWave s array rows cols = do {
     frame \<leftarrow> for_loop 0 rows (\<lambda>i fr. do {
       line \<leftarrow> for_loop 0 cols (\<lambda>j ln. do {
         v \<leftarrow> load (mem s) array i j;
         Some (ln @ [getColor v])
       }) [];
       Some (fr @ [line])
     }) [];
     Some (s\<lparr>terminal := terminal s @ [frame]\<rparr>)
   }"

section \<open>Array management\<close>

text \<open>
  \<^verbatim>\<open>allocate2DArray\<close>: \<open>a\<close> is the address that \<^verbatim>\<open>malloc\<close> returns (allocation is
  assumed to succeed), and \<open>junk\<close> stands for the indeterminate contents of fresh memory.
\<close>

definition allocate2DArray :: "heap \<Rightarrow> addr \<Rightarrow> real \<Rightarrow> int \<Rightarrow> int \<Rightarrow> heap" where
  "allocate2DArray h a junk rows cols = h(a \<mapsto> replicate (nat rows) (replicate (nat cols) junk))"

definition free2DArray :: "heap \<Rightarrow> addr \<Rightarrow> int \<Rightarrow> heap option" where
  "free2DArray h array rows =
     (case h array of
        None \<Rightarrow> None
      | Some g \<Rightarrow> if rows \<le> int (length g) then Some (h(array := None)) else None)"

definition initializeArray :: "heap \<Rightarrow> addr \<Rightarrow> int \<Rightarrow> int \<Rightarrow> heap option" where
  "initializeArray h array rows cols =
     for_loop 0 rows (\<lambda>i. for_loop 0 cols (\<lambda>j h'. store h' array i j 0)) h"

section \<open>One time step\<close>

text \<open>The pulse written to the source node at step \<open>n\<close>; \<^verbatim>\<open>pow(x, 2.0)\<close> is the square.\<close>

definition source :: "params \<Rightarrow> int \<Rightarrow> real" where
  "source P n =
     amplitude P * exp (- (((of_int n * dt P - T0 P) / (w P / 2)) ^ 2))
       * sin (((2 * pi * of_int (c P)) / l P) * (of_int n * dt P))"

text \<open>The body of the two nested loops over the interior nodes.\<close>

definition interior_node :: "params \<Rightarrow> int \<Rightarrow> int \<Rightarrow> state \<Rightarrow> state option" where
  "interior_node P jj ii s = do {
     u \<leftarrow> load (mem s) (Un0 s) ii jj;
     u_right \<leftarrow> load (mem s) (Un0 s) (ii + 1) jj;
     u_left \<leftarrow> load (mem s) (Un0 s) (ii - 1) jj;
     u_up \<leftarrow> load (mem s) (Un0 s) ii (jj + 1);
     u_down \<leftarrow> load (mem s) (Un0 s) ii (jj - 1);
     u_old \<leftarrow> load (mem s) (Un_m1 s) ii jj;
     h \<leftarrow> store (mem s) (Un_p1 s) ii jj
            (2 * u
              + Ox P * Ox P * (u_right - 2 * u + u_left)
              + Oy P * Oy P * (u_up - 2 * u + u_down)
              - u_old);
     Some (s\<lparr>mem := h\<rparr>)
   }"

definition interior_pass :: "params \<Rightarrow> state \<Rightarrow> state option" where
  "interior_pass P s =
     for_loop 1 (Ny P - 1) (\<lambda>jj. for_loop 1 (Nx P - 1) (interior_node P jj)) s"

definition source_node :: "params \<Rightarrow> int \<Rightarrow> state \<Rightarrow> state option" where
  "source_node P n s = do {
     h \<leftarrow> store (mem s) (Un_p1 s) (xs1 P) (ys1 P) (source P n);
     Some (s\<lparr>mem := h\<rparr>)
   }"

text \<open>
  The four edge loops have one shape: the node \<open>(ii, jj)\<close> of the edge is computed from
  its inward neighbour \<open>(ii + di, jj + dj)\<close> with the coefficient \<open>r\<close>.
\<close>

definition edge_node :: "real \<Rightarrow> int \<Rightarrow> int \<Rightarrow> int \<Rightarrow> int \<Rightarrow> state \<Rightarrow> state option" where
  "edge_node r di dj ii jj s = do {
     u_in \<leftarrow> load (mem s) (Un0 s) (ii + di) (jj + dj);
     v_in \<leftarrow> load (mem s) (Un_p1 s) (ii + di) (jj + dj);
     u \<leftarrow> load (mem s) (Un0 s) ii jj;
     h \<leftarrow> store (mem s) (Un_p1 s) ii jj (u_in + (r * (v_in - u)));
     Some (s\<lparr>mem := h\<rparr>)
   }"

text \<open>The coefficients that the source writes out in the edge loops.\<close>

definition Rx :: "params \<Rightarrow> real" where
  "Rx P = (of_int (c P) * dt P - dx P) / (of_int (c P) * dt P + dx P)"

definition Ry :: "params \<Rightarrow> real" where
  "Ry P = (of_int (c P) * dt P - dy P) / (of_int (c P) * dt P + dy P)"

definition left_nodes :: "params \<Rightarrow> state \<Rightarrow> state option" where
  "left_nodes P s =
     (let ii = 0 in for_loop 1 (Ny P - 1) (\<lambda>jj. edge_node (Rx P) 1 0 ii jj) s)"

definition right_nodes :: "params \<Rightarrow> state \<Rightarrow> state option" where
  "right_nodes P s =
     (let ii = Nx P - 1 in for_loop 1 (Ny P - 1) (\<lambda>jj. edge_node (Rx P) (- 1) 0 ii jj) s)"

definition top_nodes :: "params \<Rightarrow> state \<Rightarrow> state option" where
  "top_nodes P s =
     (let jj = Ny P - 1 in for_loop 1 (Nx P - 1) (\<lambda>ii. edge_node (Ry P) 0 (- 1) ii jj) s)"

definition bottom_nodes :: "params \<Rightarrow> state \<Rightarrow> state option" where
  "bottom_nodes P s =
     (let jj = 0 in for_loop 1 (Nx P - 1) (\<lambda>ii. edge_node (Ry P) 0 1 ii jj) s)"

text \<open>One corner assignment: the mean of the nodes \<open>(i1, j1)\<close> and \<open>(i2, j2)\<close>.\<close>

definition corner_node :: "int \<Rightarrow> int \<Rightarrow> int \<Rightarrow> int \<Rightarrow> int \<Rightarrow> int \<Rightarrow> state \<Rightarrow> state option" where
  "corner_node i j i1 j1 i2 j2 s = do {
     a \<leftarrow> load (mem s) (Un_p1 s) i1 j1;
     b \<leftarrow> load (mem s) (Un_p1 s) i2 j2;
     h \<leftarrow> store (mem s) (Un_p1 s) i j (5 / 10 * (a + b));
     Some (s\<lparr>mem := h\<rparr>)
   }"

definition corner_nodes :: "params \<Rightarrow> state \<Rightarrow> state option" where
  "corner_nodes P s = do {
     s1 \<leftarrow> corner_node 0 0 1 0 0 1 s;
     s2 \<leftarrow> corner_node (Nx P - 1) 0 (Nx P - 2) 0 (Nx P - 1) 1 s1;
     s3 \<leftarrow> corner_node (Nx P - 1) (Ny P - 1) (Nx P - 2) (Ny P - 1) (Nx P - 1) (Ny P - 2) s2;
     corner_node 0 (Ny P - 1) 0 (Ny P - 2) 1 (Ny P - 1) s3
   }"

text \<open>The exchange of the three pointers that ends an iteration.\<close>

definition swap_references :: "state \<Rightarrow> state" where
  "swap_references s =
     (let temp = Un_m1 s;
          s1 = s\<lparr>Un_m1 := Un0 s\<rparr>;
          s2 = s1\<lparr>Un0 := Un_p1 s1\<rparr>
      in s2\<lparr>Un_p1 := temp\<rparr>)"

text \<open>The body of the time-marching loop, in the order of the source.\<close>

definition boundary_edges :: "params \<Rightarrow> state \<Rightarrow> state option" where
  "boundary_edges P s = do {
     s1 \<leftarrow> left_nodes P s;
     s2 \<leftarrow> right_nodes P s1;
     s3 \<leftarrow> top_nodes P s2;
     bottom_nodes P s3
   }"

definition compute_next :: "params \<Rightarrow> int \<Rightarrow> state \<Rightarrow> state option" where
  "compute_next P n s = do {
     s1 \<leftarrow> interior_pass P s;
     s2 \<leftarrow> source_node P n s1;
     s3 \<leftarrow> boundary_edges P s2;
     corner_nodes P s3
   }"

definition time_step :: "params \<Rightarrow> int \<Rightarrow> state \<Rightarrow> state option" where
  "time_step P n s = do {
     s1 \<leftarrow> compute_next P n s;
     s2 \<leftarrow> printWave s1 (Un_p1 s1) (Nx P) (Ny P);
     Some (swap_references s2)
   }"

section \<open>The program\<close>

definition time_marching :: "params \<Rightarrow> state \<Rightarrow> state option" where
  "time_marching P s = for_loop 0 (n_stop P) (time_step P) s"

definition startup :: "real \<Rightarrow> params \<Rightarrow> state option" where
  "startup junk P = do {
     let h1 = allocate2DArray Map.empty 0 junk (Nx P) (Ny P);
     let h2 = allocate2DArray h1 1 junk (Nx P) (Ny P);
     let h3 = allocate2DArray h2 2 junk (Nx P) (Ny P);
     h4 \<leftarrow> initializeArray h3 0 (Nx P) (Ny P);
     h5 \<leftarrow> initializeArray h4 1 (Nx P) (Ny P);
     h6 \<leftarrow> initializeArray h5 2 (Nx P) (Ny P);
     Some \<lparr>mem = h6, Un_p1 = 0, Un0 = 1, Un_m1 = 2, terminal = []\<rparr>
   }"

definition main :: "real \<Rightarrow> params \<Rightarrow> (int \<times> state) option" where
  "main junk P = do {
     s \<leftarrow> startup junk P;
     s1 \<leftarrow> time_marching P s;
     h1 \<leftarrow> free2DArray (mem s1) (Un_p1 s1) (Nx P);
     h2 \<leftarrow> free2DArray h1 (Un0 s1) (Nx P);
     h3 \<leftarrow> free2DArray h2 (Un_m1 s1) (Nx P);
     Some (0, s1\<lparr>mem := h3\<rparr>)
   }"

section \<open>Well-formed states\<close>

text \<open>
  An array of \<open>nx\<close> rows with \<open>ny\<close> entries each, as \<^verbatim>\<open>allocate2DArray(nx, ny)\<close>
  builds it.
\<close>

definition is_grid :: "int \<Rightarrow> int \<Rightarrow> grid \<Rightarrow> bool" where
  "is_grid nx ny g \<longleftrightarrow> int (length g) = nx \<and> list_all (\<lambda>row. int (length row) = ny) g"

definition allocated :: "params \<Rightarrow> heap \<Rightarrow> addr \<Rightarrow> bool" where
  "allocated P h p = (case h p of None \<Rightarrow> False | Some g \<Rightarrow> is_grid (Nx P) (Ny P) g)"

text \<open>
  The state of \<^verbatim>\<open>main\<close> at the head of the time loop: the three pointers refer to
  three different arrays of \<open>Nx\<close> by \<open>Ny\<close> entries.
\<close>

definition valid_state :: "params \<Rightarrow> state \<Rightarrow> bool" where
  "valid_state P s \<longleftrightarrow>
     allocated P (mem s) (Un_p1 s) \<and> allocated P (mem s) (Un0 s) \<and>
     allocated P (mem s) (Un_m1 s) \<and> distinct [Un_p1 s, Un0 s, Un_m1 s]"

text \<open>The source node lies strictly inside the grid (the precondition of the source pass).\<close>

definition source_inside :: "params \<Rightarrow> bool" where
  "source_inside P \<longleftrightarrow>
     0 < xs1 P \<and> xs1 P < Nx P - 1 \<and> 0 < ys1 P \<and> ys1 P < Ny P - 1"

text \<open>The entry \<open>(i, j)\<close> of the array at \<open>p\<close>, for statements about valid accesses.\<close>

definition rd :: "state \<Rightarrow> addr \<Rightarrow> int \<Rightarrow> int \<Rightarrow> real" where
  "rd s p i j = (case load (mem s) p i j of None \<Rightarrow> 0 | Some v \<Rightarrow> v)"

text \<open>
  \<open>only_next s t\<close>: from \<open>s\<close> to \<open>t\<close> the pointers and the terminal are the same, and
  no array other than the one at \<^verbatim>\<open>Un_p1\<close> has changed.
\<close>

definition unchanged_but :: "addr \<Rightarrow> heap \<Rightarrow> heap \<Rightarrow> bool" where
  "unchanged_but p h h' \<longleftrightarrow> (\<forall>q. q = p \<or> h' q = h q)"

definition only_next :: "state \<Rightarrow> state \<Rightarrow> bool" where
  "only_next s t \<longleftrightarrow>
     Un_p1 t = Un_p1 s \<and> Un0 t = Un0 s \<and> Un_m1 t = Un_m1 s \<and> terminal t = terminal s \<and>
     unchanged_but (Un_p1 s) (mem s) (mem t)"

text \<open>
  \<open>writes P s t D f\<close>: \<open>t\<close> is a valid state that differs from \<open>s\<close> only in
  the array at \<^verbatim>\<open>Un_p1\<close>, where the nodes in \<open>D\<close> hold the values \<open>f\<close> and all
  other nodes hold what they held in \<open>s\<close>.
\<close>

definition writes ::
  "params \<Rightarrow> state \<Rightarrow> state \<Rightarrow> (int \<Rightarrow> int \<Rightarrow> bool) \<Rightarrow> (int \<Rightarrow> int \<Rightarrow> real) \<Rightarrow> bool" where
  "writes P s t D f \<longleftrightarrow>
     valid_state P t \<and> only_next s t \<and>
     (\<forall>a b. rd t (Un_p1 s) a b = (if D a b then f a b else rd s (Un_p1 s) a b))"

text \<open>The right-hand sides of the assignments, as functions of a state.\<close>

definition stencil :: "params \<Rightarrow> state \<Rightarrow> int \<Rightarrow> int \<Rightarrow> real" where
  "stencil P s i j =
     2 * rd s (Un0 s) i j
       + Ox P * Ox P * (rd s (Un0 s) (i + 1) j - 2 * rd s (Un0 s) i j + rd s (Un0 s) (i - 1) j)
       + Oy P * Oy P * (rd s (Un0 s) i (j + 1) - 2 * rd s (Un0 s) i j + rd s (Un0 s) i (j - 1))
       - rd s (Un_m1 s) i j"

definition edge_value :: "real \<Rightarrow> int \<Rightarrow> int \<Rightarrow> state \<Rightarrow> int \<Rightarrow> int \<Rightarrow> real" where
  "edge_value r di dj s i j =
     rd s (Un0 s) (i + di) (j + dj)
       + (r * (rd s (Un_p1 s) (i + di) (j + dj) - rd s (Un0 s) i j))"

definition interior :: "params \<Rightarrow> int \<Rightarrow> int \<Rightarrow> bool" where
  "interior P i j \<longleftrightarrow> 1 \<le> i \<and> i \<le> Nx P - 2 \<and> 1 \<le> j \<and> j \<le> Ny P - 2"

definition in_grid :: "params \<Rightarrow> int \<Rightarrow> int \<Rightarrow> bool" where
  "in_grid P i j \<longleftrightarrow> 0 \<le> i \<and> i < Nx P \<and> 0 \<le> j \<and> j < Ny P"

text \<open>The nodes that the four edge loops and the corner assignments write.\<close>

definition left_edge :: "params \<Rightarrow> int \<Rightarrow> int \<Rightarrow> bool" where
  "left_edge P i j \<longleftrightarrow> i = 0 \<and> 1 \<le> j \<and> j \<le> Ny P - 2"

definition right_edge :: "params \<Rightarrow> int \<Rightarrow> int \<Rightarrow> bool" where
  "right_edge P i j \<longleftrightarrow> i = Nx P - 1 \<and> 1 \<le> j \<and> j \<le> Ny P - 2"

definition top_edge :: "params \<Rightarrow> int \<Rightarrow> int \<Rightarrow> bool" where
  "top_edge P i j \<longleftrightarrow> j = Ny P - 1 \<and> 1 \<le> i \<and> i \<le> Nx P - 2"

definition bottom_edge :: "params \<Rightarrow> int \<Rightarrow> int \<Rightarrow> bool" where
  "bottom_edge P i j \<longleftrightarrow> j = 0 \<and> 1 \<le> i \<and> i \<le> Nx P - 2"

definition on_edge :: "params \<Rightarrow> int \<Rightarrow> int \<Rightarrow> bool" where
  "on_edge P i j \<longleftrightarrow> left_edge P i j \<or> right_edge P i j \<or> top_edge P i j \<or> bottom_edge P i j"

definition boundary_value :: "params \<Rightarrow> state \<Rightarrow> int \<Rightarrow> int \<Rightarrow> real" where
  "boundary_value P s i j =
     (if left_edge P i j then edge_value (Rx P) 1 0 s i j
      else if right_edge P i j then edge_value (Rx P) (- 1) 0 s i j
      else if top_edge P i j then edge_value (Ry P) 0 (- 1) s i j
      else edge_value (Ry P) 0 1 s i j)"

definition corner :: "params \<Rightarrow> int \<Rightarrow> int \<Rightarrow> bool" where
  "corner P i j \<longleftrightarrow> (i = 0 \<or> i = Nx P - 1) \<and> (j = 0 \<or> j = Ny P - 1)"

definition corner_value :: "params \<Rightarrow> state \<Rightarrow> int \<Rightarrow> int \<Rightarrow> real" where
  "corner_value P s i j =
     5 / 10 * (rd s (Un_p1 s) (if i = 0 then 1 else Nx P - 2) j
               + rd s (Un_p1 s) i (if j = 0 then 1 else Ny P - 2))"

section \<open>Initial state and sample configurations\<close>

definition zero_grid :: "params \<Rightarrow> grid" where
  "zero_grid P = replicate (nat (Nx P)) (replicate (nat (Ny P)) 0)"

text \<open>All three time levels are zero at every node.\<close>

definition all_zero :: "params \<Rightarrow> state \<Rightarrow> bool" where
  "all_zero P s \<longleftrightarrow>
     mem s (Un_p1 s) = Some (zero_grid P) \<and> mem s (Un0 s) = Some (zero_grid P) \<and>
     mem s (Un_m1 s) = Some (zero_grid P)"

text \<open>The state in which \<^verbatim>\<open>main\<close> enters the time loop.\<close>

definition initial_state :: "params \<Rightarrow> state" where
  "initial_state P =
     \<lparr>mem = Map.empty(0 \<mapsto> zero_grid P, 1 \<mapsto> zero_grid P, 2 \<mapsto> zero_grid P),
      Un_p1 = 0, Un0 = 1, Un_m1 = 2, terminal = []\<rparr>"

text \<open>
  \<open>keeps_levels s t\<close>: the three pointers of \<open>t\<close> are those of \<open>s\<close>, and the
  arrays of the current and of the previous level have in \<open>t\<close> the contents they had
  in \<open>s\<close>.
\<close>

definition keeps_levels :: "state \<Rightarrow> state \<Rightarrow> bool" where
  "keeps_levels s t \<longleftrightarrow>
     Un_p1 t = Un_p1 s \<and> Un0 t = Un0 s \<and> Un_m1 t = Un_m1 s \<and>
     mem t (Un0 s) = mem s (Un0 s) \<and> mem t (Un_m1 s) = mem s (Un_m1 s) \<and>
     unchanged_but (Un_p1 s) (mem s) (mem t)"

text \<open>The first \<open>k\<close> iterations of the time loop (the steps \<open>0\<close> to \<open>k - 1\<close>).\<close>

definition first_steps :: "params \<Rightarrow> int \<Rightarrow> state \<Rightarrow> state option" where
  "first_steps P k s = for_loop 0 k (time_step P) s"

text \<open>
  The configuration of the source on a grid of 7 by 7 nodes with the source at \<open>(3, 3)\<close>,
  the same configuration with the pulse switched off, and the same configuration with
  the source moved onto the left edge of the grid.
\<close>

definition grid7 :: params where
  "grid7 = wave_sim_c\<lparr>Lx := 72 / 10 ^ 8, Ly := 72 / 10 ^ 8, xs1 := 3, ys1 := 3\<rparr>"

definition silent :: params where
  "silent = wave_sim_c\<lparr>amplitude := 0\<rparr>"

definition source_on_edge :: params where
  "source_on_edge = wave_sim_c\<lparr>xs1 := 0\<rparr>"

text \<open>The configuration of the source with a negative length and a negative spacing in x.\<close>

definition negative_x :: params where
  "negative_x = wave_sim_c\<lparr>Lx := - (10 / 10 ^ 6), dx := - (12 / 10 ^ 8)\<rparr>"

text \<open>
  The configuration of the source with the source node moved to \<open>(x, y)\<close>, and the
  frame that \<^verbatim>\<open>printWave\<close> prints for a level that is zero at every node.
\<close>

definition source_at :: "int \<Rightarrow> int \<Rightarrow> params" where
  "source_at x y = wave_sim_c\<lparr>xs1 := x, ys1 := y\<rparr>"

definition black_frame :: "params \<Rightarrow> color list list" where
  "black_frame P = replicate (nat (Nx P)) (replicate (nat (Ny P)) BLACK)"

section \<open>The new level as a function of the two levels before\<close>

text \<open>
  \<open>next_level P n cur prv new\<close>: the level \<open>new\<close> is what step \<open>n\<close> computes
  from the current level \<open>cur\<close> and the previous level \<open>prv\<close>.
\<close>

definition next_level ::
  "params \<Rightarrow> int \<Rightarrow> (int \<Rightarrow> int \<Rightarrow> real) \<Rightarrow> (int \<Rightarrow> int \<Rightarrow> real) \<Rightarrow> (int \<Rightarrow> int \<Rightarrow> real) \<Rightarrow> bool"
  where
  "next_level P n cur prv new \<longleftrightarrow>
     (\<forall>a b. interior P a b \<longrightarrow>
        new a b =
          (if a = xs1 P \<and> b = ys1 P then source P n
           else 2 * cur a b
                  + Ox P * Ox P * (cur (a + 1) b - 2 * cur a b + cur (a - 1) b)
                  + Oy P * Oy P * (cur a (b + 1) - 2 * cur a b + cur a (b - 1))
                  - prv a b)) \<and>
     (\<forall>b. 1 \<le> b \<and> b \<le> Ny P - 2 \<longrightarrow>
        new 0 b = cur 1 b + Rx P * (new 1 b - cur 0 b) \<and>
        new (Nx P - 1) b = cur (Nx P - 2) b + Rx P * (new (Nx P - 2) b - cur (Nx P - 1) b)) \<and>
     (\<forall>a. 1 \<le> a \<and> a \<le> Nx P - 2 \<longrightarrow>
        new a (Ny P - 1) = cur a (Ny P - 2) + Ry P * (new a (Ny P - 2) - cur a (Ny P - 1)) \<and>
        new a 0 = cur a 1 + Ry P * (new a 1 - cur a 0)) \<and>
     new 0 0 = 5 / 10 * (new 1 0 + new 0 1) \<and>
     new (Nx P - 1) 0 = 5 / 10 * (new (Nx P - 2) 0 + new (Nx P - 1) 1) \<and>
     new (Nx P - 1) (Ny P - 1) = 5 / 10 * (new (Nx P - 2) (Ny P - 1) + new (Nx P - 1) (Ny P - 2)) \<and>
     new 0 (Ny P - 1) = 5 / 10 * (new 0 (Ny P - 2) + new 1 (Ny P - 1))"

text \<open>
  Distances from the source node, and the first step at which a node can receive a value
  other than zero when the simulation starts from zero: an interior node at Manhattan
  distance \<open>m\<close> in step \<open>m + 1\<close>, an edge node in step \<open>m\<close> (with its interior
  neighbour), a corner in step \<open>m - 1\<close> (with its edge neighbours).
\<close>

definition manhattan :: "params \<Rightarrow> int \<Rightarrow> int \<Rightarrow> int" where
  "manhattan P i j = \<bar>i - xs1 P\<bar> + \<bar>j - ys1 P\<bar>"

definition chebyshev :: "params \<Rightarrow> int \<Rightarrow> int \<Rightarrow> int" where
  "chebyshev P i j = max \<bar>i - xs1 P\<bar> \<bar>j - ys1 P\<bar>"

definition arrival :: "params \<Rightarrow> int \<Rightarrow> int \<Rightarrow> int" where
  "arrival P i j =
     (if interior P i j then manhattan P i j + 1
      else if on_edge P i j then manhattan P i j
      else manhattan P i j - 1)"

definition zero_before :: "params \<Rightarrow> int \<Rightarrow> (int \<Rightarrow> int \<Rightarrow> real) \<Rightarrow> bool" where
  "zero_before P k lev \<longleftrightarrow> (\<forall>a b. in_grid P a b \<and> k < arrival P a b \<longrightarrow> lev a b = 0)"

section \<open>Properties of the memory model and of loops\<close>

lemma for_loop_rule:
  assumes "I i s"
    and "\<And>k t. i \<le> k \<Longrightarrow> k < n \<Longrightarrow> I k t \<Longrightarrow> \<exists>t'. body k t = Some t' \<and> I (k + 1) t'"
  shows "\<exists>s'. for_loop i n body s = Some s' \<and> I (max i n) s'"
  using assms
proof (induction i n body s rule: for_loop.induct)
  case (1 i n body s)
  show ?case
  proof (cases "i < n")
    case True
    from "1.prems"(2)[of i s] True "1.prems"(1)
    obtain t where t: "body i s = Some t" "I (i + 1) t" by auto
    have "\<exists>s'. for_loop (i + 1) n body t = Some s' \<and> I (max (i + 1) n) s'"
      by (rule "1.IH"[OF True t(1) t(2)]) (use "1.prems"(2) in auto)
    moreover have "max (i + 1) n = max i n" using True by simp
    ultimately show ?thesis using True t(1) by (subst for_loop.simps) simp
  next
    case False
    then show ?thesis using "1.prems"(1) by (subst for_loop.simps) (simp add: max_def)
  qed
qed

lemma load_allocated:
  "allocated P h p \<Longrightarrow> (load h p i j = None) = (\<not> (0 \<le> i \<and> i < Nx P \<and> 0 \<le> j \<and> j < Ny P))"
  by (auto simp: allocated_def load_def in_bounds_def is_grid_def list_all_iff split: option.splits)

lemma store_None_iff: "store h p i j v = None \<longleftrightarrow> load h p i j = None"
  by (auto simp: store_def load_def split: option.splits)

lemma nth_nth_update:
  "i < length g \<Longrightarrow> (g[i := (g ! i)[j := v]]) ! a ! b =
     (if a = i \<and> b = j \<and> j < length (g ! i) then v else g ! a ! b)"
  by (cases "a = i"; cases "b = j"; cases "j < length (g ! i)") (simp_all add: nth_list_update list_update_beyond)

lemma in_bounds_update:
  "nat i < length g \<Longrightarrow> in_bounds (g[nat i := (g ! nat i)[nat j := v]]) a b = in_bounds g a b"
  by (cases "nat a = nat i") (simp_all add: in_bounds_def)

lemma load_store:
  assumes "store h p i j v = Some h'"
  shows "load h' q a b = (if q = p \<and> a = i \<and> b = j then Some v else load h q a b)"
proof -
  from assms obtain g where g: "h p = Some g" "in_bounds g i j"
    and h': "h' = h(p \<mapsto> g[nat i := (g ! nat i)[nat j := v]])"
    by (auto simp: store_def split: option.splits if_splits)
  from g(2) have i: "nat i < length g" and j: "nat j < length (g ! nat i)"
    and pos: "0 \<le> i" "0 \<le> j"
    by (auto simp: in_bounds_def)
  show ?thesis
  proof (cases "q = p")
    case False
    then show ?thesis by (simp add: h' load_def)
  next
    case True
    show ?thesis
    proof (cases "in_bounds g a b")
      case False
      then show ?thesis using True g i by (auto simp: h' load_def in_bounds_update)
    next
      case ib: True
      then have "0 \<le> a" "0 \<le> b" by (auto simp: in_bounds_def)
      then have "(nat a = nat i \<and> nat b = nat j) = (a = i \<and> b = j)"
        using pos by auto
      then show ?thesis
        using True g i j ib by (simp add: h' load_def in_bounds_update nth_nth_update)
    qed
  qed
qed
lemma store_other: "store h p i j v = Some h' \<Longrightarrow> unchanged_but p h h'"
  by (auto simp: store_def unchanged_but_def split: option.splits if_splits)

lemma is_grid_update:
  "nat i < length g \<Longrightarrow> is_grid nx ny (g[nat i := (g ! nat i)[nat j := v]]) = is_grid nx ny g"
  unfolding is_grid_def list_all_length
  by (auto simp: nth_list_update split: if_splits)

lemma allocated_store: "store h p i j v = Some h' \<Longrightarrow> allocated P h' q = allocated P h q"
  by (auto simp: store_def allocated_def is_grid_update in_bounds_def
      split: option.splits if_splits)


lemma load_rd:
  "allocated P (mem s) p \<Longrightarrow> in_grid P i j \<Longrightarrow> load (mem s) p i j = Some (rd s p i j)"
  using load_allocated[of P "mem s" p i j] by (auto simp: rd_def in_grid_def split: option.splits)

lemma rd_outside:
  "allocated P (mem s) p \<Longrightarrow> \<not> in_grid P i j \<Longrightarrow> rd s p i j = 0"
  using load_allocated[of P "mem s" p i j] by (auto simp: rd_def in_grid_def split: option.splits)

lemma only_next_refl: "only_next s s"
  by (simp add: only_next_def unchanged_but_def)

lemma only_next_trans: "only_next s t \<Longrightarrow> only_next t u \<Longrightarrow> only_next s u"
  by (auto simp: only_next_def unchanged_but_def) metis

lemma only_next_rd:
  "only_next s t \<Longrightarrow> p \<noteq> Un_p1 s \<Longrightarrow> rd t p i j = rd s p i j"
  by (auto simp: only_next_def unchanged_but_def rd_def load_def)

lemma writes_refl: "valid_state P s \<Longrightarrow> writes P s s (\<lambda>a b. False) f"
  by (simp add: writes_def only_next_refl)

lemma writes_trans:
  assumes st: "writes P s t D f" and tu: "writes P t u E f"
  shows "writes P s u (\<lambda>a b. D a b \<or> E a b) f"
proof -
  from st have p: "Un_p1 t = Un_p1 s" by (simp add: writes_def only_next_def)
  have "only_next s u"
    using st tu by (auto simp: writes_def intro: only_next_trans)
  moreover have "rd u (Un_p1 s) a b = (if D a b \<or> E a b then f a b else rd s (Un_p1 s) a b)"
    for a b
    using st tu p by (simp add: writes_def)
  ultimately show ?thesis using tu by (simp add: writes_def)
qed

lemma writes_cong:
  "writes P s t D f \<Longrightarrow> (\<And>a b. D a b \<Longrightarrow> f a b = g a b) \<Longrightarrow> (\<And>a b. D a b = E a b) \<Longrightarrow>
   writes P s t E g"
  unfolding writes_def by auto

lemma for_loop_writes:
  assumes s: "valid_state P s"
    and body: "\<And>k t. lo \<le> k \<Longrightarrow> k < n \<Longrightarrow>
        writes P s t (\<lambda>a b. \<exists>k'. lo \<le> k' \<and> k' < k \<and> D k' a b) f \<Longrightarrow>
        \<exists>t'. body k t = Some t' \<and> writes P t t' (D k) f"
  shows "\<exists>s'. for_loop lo n body s = Some s' \<and>
           writes P s s' (\<lambda>a b. \<exists>k. lo \<le> k \<and> k < n \<and> D k a b) f"
proof -
  let ?I = "\<lambda>k t. writes P s t (\<lambda>a b. \<exists>k'. lo \<le> k' \<and> k' < k \<and> D k' a b) f"
  have init: "?I lo s"
    using writes_refl[OF s] by (rule writes_cong) auto
  have step: "\<exists>t'. body k t = Some t' \<and> ?I (k + 1) t'"
    if "lo \<le> k" "k < n" "?I k t" for k t
  proof -
    from body[OF that] obtain t' where t': "body k t = Some t'" "writes P t t' (D k) f"
      by blast
    have "?I (k + 1) t'"
      by (rule writes_cong[OF writes_trans[OF that(3) t'(2)]])
         (use that(1) in \<open>auto simp: less_le\<close>)
    with t' show ?thesis by blast
  qed
  from for_loop_rule[of ?I lo s n body, OF init step]
  obtain s' where s': "for_loop lo n body s = Some s'" "?I (max lo n) s'" by blast
  have "writes P s s' (\<lambda>a b. \<exists>k. lo \<le> k \<and> k < n \<and> D k a b) f"
    by (rule writes_cong[OF s'(2)]) (auto simp: max_def)
  with s' show ?thesis by blast
qed

text \<open>A single assignment to the next level.\<close>

lemma assign_next:
  assumes v: "valid_state P s" and g: "in_grid P i j"
  shows "\<exists>h. store (mem s) (Un_p1 s) i j v = Some h \<and>
           writes P s (s\<lparr>mem := h\<rparr>) (\<lambda>a b. a = i \<and> b = j) (\<lambda>a b. v)"
proof -
  from v have al: "allocated P (mem s) (Un_p1 s)" by (simp add: valid_state_def)
  from load_rd[OF al g] obtain h where h: "store (mem s) (Un_p1 s) i j v = Some h"
    using store_None_iff[of "mem s" "Un_p1 s" i j v] by (cases "store (mem s) (Un_p1 s) i j v") auto
  have "valid_state P (s\<lparr>mem := h\<rparr>)"
    using v by (simp add: valid_state_def allocated_store[OF h])
  moreover have "only_next s (s\<lparr>mem := h\<rparr>)"
    using store_other[OF h] by (simp add: only_next_def)
  moreover have "rd (s\<lparr>mem := h\<rparr>) (Un_p1 s) a b = (if a = i \<and> b = j then v else rd s (Un_p1 s) a b)" for a b
    by (simp add: rd_def load_store[OF h])
  ultimately show ?thesis using h by (simp add: writes_def)
qed

section \<open>The interior pass\<close>

lemma valid_stateD:
  "valid_state P s \<Longrightarrow> allocated P (mem s) (Un_p1 s)"
  "valid_state P s \<Longrightarrow> allocated P (mem s) (Un0 s)"
  "valid_state P s \<Longrightarrow> allocated P (mem s) (Un_m1 s)"
  "valid_state P s \<Longrightarrow> Un0 s \<noteq> Un_p1 s"
  "valid_state P s \<Longrightarrow> Un_m1 s \<noteq> Un_p1 s"
  by (auto simp: valid_state_def)

lemma interior_in_grid:
  "interior P i j \<Longrightarrow> in_grid P i j"
  "interior P i j \<Longrightarrow> in_grid P (i + 1) j"
  "interior P i j \<Longrightarrow> in_grid P (i - 1) j"
  "interior P i j \<Longrightarrow> in_grid P i (j + 1)"
  "interior P i j \<Longrightarrow> in_grid P i (j - 1)"
  by (auto simp: interior_def in_grid_def)

lemma interior_node_writes:
  assumes v: "valid_state P t" and i: "interior P ii jj"
  shows "\<exists>t'. interior_node P jj ii t = Some t' \<and>
           writes P t t' (\<lambda>a b. a = ii \<and> b = jj) (stencil P t)"
proof -
  note g = interior_in_grid[OF i]
  note al = valid_stateD(1-3)[OF v]
  from assign_next[OF v g(1), of "stencil P t ii jj"]
  obtain h where h: "store (mem t) (Un_p1 t) ii jj (stencil P t ii jj) = Some h"
    and w: "writes P t (t\<lparr>mem := h\<rparr>) (\<lambda>a b. a = ii \<and> b = jj) (\<lambda>a b. stencil P t ii jj)"
    by blast
  have "interior_node P jj ii t = Some (t\<lparr>mem := h\<rparr>)"
    using h
    by (simp add: interior_node_def load_rd[OF al(2)] load_rd[OF al(3)] g stencil_def)
  moreover have "writes P t (t\<lparr>mem := h\<rparr>) (\<lambda>a b. a = ii \<and> b = jj) (stencil P t)"
    by (rule writes_cong[OF w]) auto
  ultimately show ?thesis by blast
qed

lemma writes_stencil:
  assumes "writes P s t D f"
  shows "stencil P t = stencil P s"
proof -
  from assms have o: "only_next s t" and v: "valid_state P t" by (auto simp: writes_def)
  from o have p: "Un_p1 t = Un_p1 s" "Un0 t = Un0 s" "Un_m1 t = Un_m1 s"
    by (auto simp: only_next_def)
  from v p have ne: "Un0 s \<noteq> Un_p1 s" "Un_m1 s \<noteq> Un_p1 s"
    by (auto simp: valid_state_def)
  show ?thesis
    by (intro ext) (simp add: stencil_def p only_next_rd[OF o ne(1)] only_next_rd[OF o ne(2)])
qed

lemma writes_valid: "writes P s t D f \<Longrightarrow> valid_state P t"
  by (simp add: writes_def)

lemma interior_row_writes:
  assumes v: "valid_state P t" and jj: "1 \<le> jj" "jj \<le> Ny P - 2"
  shows "\<exists>t'. for_loop 1 (Nx P - 1) (interior_node P jj) t = Some t' \<and>
           writes P t t' (\<lambda>a b. 1 \<le> a \<and> a \<le> Nx P - 2 \<and> b = jj) (stencil P t)"
proof -
  have "\<exists>t'. for_loop 1 (Nx P - 1) (interior_node P jj) t = Some t' \<and>
    writes P t t' (\<lambda>a b. \<exists>k. 1 \<le> k \<and> k < Nx P - 1 \<and> (a = k \<and> b = jj)) (stencil P t)"
  proof (rule for_loop_writes[where D = "\<lambda>k a b. a = k \<and> b = jj", OF v])
    fix k u
    assume k: "1 \<le> k" "k < Nx P - 1"
      and w: "writes P t u (\<lambda>a b. \<exists>k'. 1 \<le> k' \<and> k' < k \<and> (a = k' \<and> b = jj)) (stencil P t)"
    have "interior P k jj" using k jj by (simp add: interior_def)
    from interior_node_writes[OF writes_valid[OF w] this]
    show "\<exists>t'. interior_node P jj k u = Some t' \<and>
            writes P u t' (\<lambda>a b. a = k \<and> b = jj) (stencil P t)"
      by (simp add: writes_stencil[OF w])
  qed
  then obtain t' where t': "for_loop 1 (Nx P - 1) (interior_node P jj) t = Some t'"
    "writes P t t' (\<lambda>a b. \<exists>k. 1 \<le> k \<and> k < Nx P - 1 \<and> (a = k \<and> b = jj)) (stencil P t)"
    by blast
  have "writes P t t' (\<lambda>a b. 1 \<le> a \<and> a \<le> Nx P - 2 \<and> b = jj) (stencil P t)"
    by (rule writes_cong[OF t'(2)]) auto
  with t'(1) show ?thesis by blast
qed

lemma interior_pass_writes:
  assumes v: "valid_state P s"
  shows "\<exists>s'. interior_pass P s = Some s' \<and> writes P s s' (interior P) (stencil P s)"
proof -
  let ?body = "\<lambda>jj. for_loop 1 (Nx P - 1) (interior_node P jj)"
  have "\<exists>s'. for_loop 1 (Ny P - 1) ?body s = Some s' \<and>
    writes P s s' (\<lambda>a b. \<exists>k. 1 \<le> k \<and> k < Ny P - 1 \<and> (1 \<le> a \<and> a \<le> Nx P - 2 \<and> b = k))
      (stencil P s)"
  proof (rule for_loop_writes[where D = "\<lambda>k a b. 1 \<le> a \<and> a \<le> Nx P - 2 \<and> b = k", OF v])
    fix k u
    assume k: "1 \<le> k" "k < Ny P - 1"
      and w: "writes P s u
        (\<lambda>a b. \<exists>k'. 1 \<le> k' \<and> k' < k \<and> (1 \<le> a \<and> a \<le> Nx P - 2 \<and> b = k')) (stencil P s)"
    show "\<exists>t'. ?body k u = Some t' \<and>
            writes P u t' (\<lambda>a b. 1 \<le> a \<and> a \<le> Nx P - 2 \<and> b = k) (stencil P s)"
      using interior_row_writes[OF writes_valid[OF w], of k] k
      by (simp add: writes_stencil[OF w])
  qed
  then obtain s' where s': "for_loop 1 (Ny P - 1) ?body s = Some s'"
    "writes P s s' (\<lambda>a b. \<exists>k. 1 \<le> k \<and> k < Ny P - 1 \<and> (1 \<le> a \<and> a \<le> Nx P - 2 \<and> b = k))
       (stencil P s)"
    by blast
  have "writes P s s' (interior P) (stencil P s)"
    by (rule writes_cong[OF s'(2)]) (auto simp: interior_def)
  with s'(1) show ?thesis by (simp add: interior_pass_def)
qed

section \<open>Single assignments of the source, edge and corner passes\<close>

lemma writes_seq:
  assumes st: "writes P s t D f" and tu: "writes P t u E g"
  shows "writes P s u (\<lambda>a b. D a b \<or> E a b) (\<lambda>a b. if E a b then g a b else f a b)"
proof -
  from st have p: "Un_p1 t = Un_p1 s" by (simp add: writes_def only_next_def)
  have "only_next s u"
    using st tu by (auto simp: writes_def intro: only_next_trans)
  moreover have "rd u (Un_p1 s) a b =
      (if D a b \<or> E a b then (if E a b then g a b else f a b) else rd s (Un_p1 s) a b)" for a b
    using st tu p by (simp add: writes_def)
  ultimately show ?thesis using tu by (simp add: writes_def)
qed

lemma writes_rd_next:
  "writes P s t D f \<Longrightarrow> rd t (Un_p1 s) a b = (if D a b then f a b else rd s (Un_p1 s) a b)"
  by (simp add: writes_def)

lemma writes_ptrs:
  "writes P s t D f \<Longrightarrow> Un_p1 t = Un_p1 s"
  "writes P s t D f \<Longrightarrow> Un0 t = Un0 s"
  "writes P s t D f \<Longrightarrow> Un_m1 t = Un_m1 s"
  "writes P s t D f \<Longrightarrow> terminal t = terminal s"
  by (auto simp: writes_def only_next_def)

lemma writes_rd_other:
  assumes "writes P s t D f"
  shows "rd t (Un0 s) a b = rd s (Un0 s) a b" "rd t (Un_m1 s) a b = rd s (Un_m1 s) a b"
proof -
  from assms have o: "only_next s t" and v: "valid_state P t" by (auto simp: writes_def)
  from v writes_ptrs[OF assms] have ne: "Un0 s \<noteq> Un_p1 s" "Un_m1 s \<noteq> Un_p1 s"
    by (auto simp: valid_state_def)
  show "rd t (Un0 s) a b = rd s (Un0 s) a b" "rd t (Un_m1 s) a b = rd s (Un_m1 s) a b"
    by (simp_all add: only_next_rd[OF o ne(1)] only_next_rd[OF o ne(2)])
qed

lemma source_node_writes:
  assumes v: "valid_state P s" and g: "in_grid P (xs1 P) (ys1 P)"
  shows "\<exists>t. source_node P n s = Some t \<and>
           writes P s t (\<lambda>a b. a = xs1 P \<and> b = ys1 P) (\<lambda>a b. source P n)"
  using assign_next[OF v g, of "source P n"] by (auto simp: source_node_def)

lemma edge_node_writes:
  assumes v: "valid_state P t" and g: "in_grid P ii jj" "in_grid P (ii + di) (jj + dj)"
  shows "\<exists>t'. edge_node r di dj ii jj t = Some t' \<and>
           writes P t t' (\<lambda>a b. a = ii \<and> b = jj) (edge_value r di dj t)"
proof -
  note al = valid_stateD(1-3)[OF v]
  from assign_next[OF v g(1), of "edge_value r di dj t ii jj"]
  obtain h where h: "store (mem t) (Un_p1 t) ii jj (edge_value r di dj t ii jj) = Some h"
    and w: "writes P t (t\<lparr>mem := h\<rparr>) (\<lambda>a b. a = ii \<and> b = jj)
              (\<lambda>a b. edge_value r di dj t ii jj)"
    by blast
  have "edge_node r di dj ii jj t = Some (t\<lparr>mem := h\<rparr>)"
    using h
    by (simp add: edge_node_def load_rd[OF al(1)] load_rd[OF al(2)] g edge_value_def)
  moreover have "writes P t (t\<lparr>mem := h\<rparr>) (\<lambda>a b. a = ii \<and> b = jj) (edge_value r di dj t)"
    by (rule writes_cong[OF w]) auto
  ultimately show ?thesis by blast
qed

lemma writes_edge_value:
  assumes w: "writes P s u D f" and n: "\<not> D (i + di) (j + dj)"
  shows "edge_value r di dj u i j = edge_value r di dj s i j"
  using n
  by (simp add: edge_value_def writes_ptrs[OF w] writes_rd_other[OF w] writes_rd_next[OF w])

lemma edge_loop_writes:
  assumes v: "valid_state P s"
    and g: "\<And>k. 1 \<le> k \<Longrightarrow> k < n \<Longrightarrow> in_grid P (pa k) (pb k) \<and> in_grid P (pa k + di) (pb k + dj)"
    and inward: "\<And>k k'. 1 \<le> k \<Longrightarrow> k < n \<Longrightarrow> pa k + di \<noteq> pa k' \<or> pb k + dj \<noteq> pb k'"
  shows "\<exists>s'. for_loop 1 n (\<lambda>k. edge_node r di dj (pa k) (pb k)) s = Some s' \<and>
           writes P s s' (\<lambda>a b. \<exists>k. 1 \<le> k \<and> k < n \<and> (a = pa k \<and> b = pb k))
             (edge_value r di dj s)"
proof (rule for_loop_writes[where D = "\<lambda>k a b. a = pa k \<and> b = pb k", OF v])
  fix k u
  assume k: "1 \<le> k" "k < n"
    and w: "writes P s u (\<lambda>a b. \<exists>k'. 1 \<le> k' \<and> k' < k \<and> (a = pa k' \<and> b = pb k'))
              (edge_value r di dj s)"
  from g[OF k] have g': "in_grid P (pa k) (pb k)" "in_grid P (pa k + di) (pb k + dj)" by auto
  from edge_node_writes[OF writes_valid[OF w] g', of r]
  obtain t' where t': "edge_node r di dj (pa k) (pb k) u = Some t'"
    "writes P u t' (\<lambda>a b. a = pa k \<and> b = pb k) (edge_value r di dj u)" by blast
  have "edge_value r di dj u (pa k) (pb k) = edge_value r di dj s (pa k) (pb k)"
    by (rule writes_edge_value[OF w]) (use inward[OF k] in auto)
  then have "writes P u t' (\<lambda>a b. a = pa k \<and> b = pb k) (edge_value r di dj s)"
    by (intro writes_cong[OF t'(2)]) auto
  with t'(1) show "\<exists>t'. edge_node r di dj (pa k) (pb k) u = Some t' \<and>
      writes P u t' (\<lambda>a b. a = pa k \<and> b = pb k) (edge_value r di dj s)" by blast
qed

lemma corner_node_writes:
  assumes v: "valid_state P t" and g: "in_grid P i j" "in_grid P i1 j1" "in_grid P i2 j2"
  shows "\<exists>t'. corner_node i j i1 j1 i2 j2 t = Some t' \<and>
           writes P t t' (\<lambda>a b. a = i \<and> b = j)
             (\<lambda>a b. 5 / 10 * (rd t (Un_p1 t) i1 j1 + rd t (Un_p1 t) i2 j2))"
  using assign_next[OF v g(1), of "5 / 10 * (rd t (Un_p1 t) i1 j1 + rd t (Un_p1 t) i2 j2)"]
  by (auto simp: corner_node_def load_rd[OF valid_stateD(1)[OF v]] g)

section \<open>The edge loops\<close>

lemma left_nodes_writes:
  assumes v: "valid_state P s" and n: "2 \<le> Nx P"
  shows "\<exists>s'. left_nodes P s = Some s' \<and> writes P s s' (left_edge P) (edge_value (Rx P) 1 0 s)"
proof -
  from edge_loop_writes[of P s "Ny P - 1" "\<lambda>k. 0" "\<lambda>k. k" 1 0 "Rx P", OF v]
  obtain s' where s': "for_loop 1 (Ny P - 1) (\<lambda>k. edge_node (Rx P) 1 0 0 k) s = Some s'"
    "writes P s s' (\<lambda>a b. \<exists>k. 1 \<le> k \<and> k < Ny P - 1 \<and> (a = 0 \<and> b = k)) (edge_value (Rx P) 1 0 s)"
    using n by (auto simp: in_grid_def)
  have "writes P s s' (left_edge P) (edge_value (Rx P) 1 0 s)"
    by (rule writes_cong[OF s'(2)]) (auto simp: left_edge_def)
  with s'(1) show ?thesis by (simp add: left_nodes_def)
qed

lemma right_nodes_writes:
  assumes v: "valid_state P s" and n: "2 \<le> Nx P"
  shows "\<exists>s'. right_nodes P s = Some s' \<and>
           writes P s s' (right_edge P) (edge_value (Rx P) (- 1) 0 s)"
proof -
  from edge_loop_writes[of P s "Ny P - 1" "\<lambda>k. Nx P - 1" "\<lambda>k. k" "- 1" 0 "Rx P", OF v]
  obtain s' where s': "for_loop 1 (Ny P - 1) (\<lambda>k. edge_node (Rx P) (- 1) 0 (Nx P - 1) k) s = Some s'"
    "writes P s s' (\<lambda>a b. \<exists>k. 1 \<le> k \<and> k < Ny P - 1 \<and> (a = Nx P - 1 \<and> b = k))
       (edge_value (Rx P) (- 1) 0 s)"
    using n by (auto simp: in_grid_def)
  have "writes P s s' (right_edge P) (edge_value (Rx P) (- 1) 0 s)"
    by (rule writes_cong[OF s'(2)]) (auto simp: right_edge_def)
  with s'(1) show ?thesis by (simp add: right_nodes_def)
qed

lemma top_nodes_writes:
  assumes v: "valid_state P s" and n: "2 \<le> Ny P"
  shows "\<exists>s'. top_nodes P s = Some s' \<and>
           writes P s s' (top_edge P) (edge_value (Ry P) 0 (- 1) s)"
proof -
  from edge_loop_writes[of P s "Nx P - 1" "\<lambda>k. k" "\<lambda>k. Ny P - 1" 0 "- 1" "Ry P", OF v]
  obtain s' where s': "for_loop 1 (Nx P - 1) (\<lambda>k. edge_node (Ry P) 0 (- 1) k (Ny P - 1)) s = Some s'"
    "writes P s s' (\<lambda>a b. \<exists>k. 1 \<le> k \<and> k < Nx P - 1 \<and> (a = k \<and> b = Ny P - 1))
       (edge_value (Ry P) 0 (- 1) s)"
    using n by (auto simp: in_grid_def)
  have "writes P s s' (top_edge P) (edge_value (Ry P) 0 (- 1) s)"
    by (rule writes_cong[OF s'(2)]) (auto simp: top_edge_def)
  with s'(1) show ?thesis by (simp add: top_nodes_def)
qed

lemma bottom_nodes_writes:
  assumes v: "valid_state P s" and n: "2 \<le> Ny P"
  shows "\<exists>s'. bottom_nodes P s = Some s' \<and>
           writes P s s' (bottom_edge P) (edge_value (Ry P) 0 1 s)"
proof -
  from edge_loop_writes[of P s "Nx P - 1" "\<lambda>k. k" "\<lambda>k. 0" 0 1 "Ry P", OF v]
  obtain s' where s': "for_loop 1 (Nx P - 1) (\<lambda>k. edge_node (Ry P) 0 1 k 0) s = Some s'"
    "writes P s s' (\<lambda>a b. \<exists>k. 1 \<le> k \<and> k < Nx P - 1 \<and> (a = k \<and> b = 0))
       (edge_value (Ry P) 0 1 s)"
    using n by (auto simp: in_grid_def)
  have "writes P s s' (bottom_edge P) (edge_value (Ry P) 0 1 s)"
    by (rule writes_cong[OF s'(2)]) (auto simp: bottom_edge_def)
  with s'(1) show ?thesis by (simp add: bottom_nodes_def)
qed

lemma boundary_edges_writes:
  assumes v: "valid_state P s" and n: "3 \<le> Nx P" "3 \<le> Ny P"
  shows "\<exists>s'. boundary_edges P s = Some s' \<and> writes P s s' (on_edge P) (boundary_value P s)"
proof -
  from n have n2: "2 \<le> Nx P" "2 \<le> Ny P" by auto
  from left_nodes_writes[OF v n2(1)] obtain s1 where s1: "left_nodes P s = Some s1"
    and w1: "writes P s s1 (left_edge P) (edge_value (Rx P) 1 0 s)" by blast
  from right_nodes_writes[OF writes_valid[OF w1] n2(1)]
  obtain s2 where s2: "right_nodes P s1 = Some s2"
    and w2': "writes P s1 s2 (right_edge P) (edge_value (Rx P) (- 1) 0 s1)" by blast
  have w2: "writes P s1 s2 (right_edge P) (edge_value (Rx P) (- 1) 0 s)"
  proof (rule writes_cong[OF w2'])
    fix a b assume "right_edge P a b"
    then have "\<not> left_edge P (a + - 1) (b + 0)" using n by (auto simp: right_edge_def left_edge_def)
    then show "edge_value (Rx P) (- 1) 0 s1 a b = edge_value (Rx P) (- 1) 0 s a b"
      by (rule writes_edge_value[OF w1])
  qed simp
  note w12 = writes_seq[OF w1 w2]
  from top_nodes_writes[OF writes_valid[OF w2] n2(2)]
  obtain s3 where s3: "top_nodes P s2 = Some s3"
    and w3': "writes P s2 s3 (top_edge P) (edge_value (Ry P) 0 (- 1) s2)" by blast
  have w3: "writes P s2 s3 (top_edge P) (edge_value (Ry P) 0 (- 1) s)"
  proof (rule writes_cong[OF w3'])
    fix a b assume "top_edge P a b"
    then have "\<not> (left_edge P (a + 0) (b + - 1) \<or> right_edge P (a + 0) (b + - 1))"
      using n by (auto simp: right_edge_def left_edge_def top_edge_def)
    then show "edge_value (Ry P) 0 (- 1) s2 a b = edge_value (Ry P) 0 (- 1) s a b"
      by (rule writes_edge_value[OF w12])
  qed simp
  note w123 = writes_seq[OF w12 w3]
  from bottom_nodes_writes[OF writes_valid[OF w3] n2(2)]
  obtain s4 where s4: "bottom_nodes P s3 = Some s4"
    and w4': "writes P s3 s4 (bottom_edge P) (edge_value (Ry P) 0 1 s3)" by blast
  have w4: "writes P s3 s4 (bottom_edge P) (edge_value (Ry P) 0 1 s)"
  proof (rule writes_cong[OF w4'])
    fix a b assume "bottom_edge P a b"
    then have "\<not> ((left_edge P (a + 0) (b + 1) \<or> right_edge P (a + 0) (b + 1))
        \<or> top_edge P (a + 0) (b + 1))"
      using n by (auto simp: right_edge_def left_edge_def top_edge_def bottom_edge_def)
    then show "edge_value (Ry P) 0 1 s3 a b = edge_value (Ry P) 0 1 s a b"
      by (rule writes_edge_value[OF w123])
  qed simp
  have "writes P s s4 (on_edge P) (boundary_value P s)"
    by (rule writes_cong[OF writes_seq[OF w123 w4]])
      (use n in \<open>auto simp: on_edge_def boundary_value_def left_edge_def right_edge_def
         top_edge_def bottom_edge_def\<close>)
  moreover have "boundary_edges P s = Some s4"
    by (simp add: boundary_edges_def s1 s2 s3 s4)
  ultimately show ?thesis by blast
qed

section \<open>Corners, and one whole iteration\<close>

lemma corner_nodes_writes:
  assumes v: "valid_state P s" and n: "3 \<le> Nx P" "3 \<le> Ny P"
  shows "\<exists>s'. corner_nodes P s = Some s' \<and> writes P s s' (corner P) (corner_value P s)"
proof -
  have g: "in_grid P 0 0" "in_grid P 1 0" "in_grid P 0 1"
    "in_grid P (Nx P - 1) 0" "in_grid P (Nx P - 2) 0" "in_grid P (Nx P - 1) 1"
    "in_grid P (Nx P - 1) (Ny P - 1)" "in_grid P (Nx P - 2) (Ny P - 1)"
    "in_grid P (Nx P - 1) (Ny P - 2)"
    "in_grid P 0 (Ny P - 1)" "in_grid P 0 (Ny P - 2)" "in_grid P 1 (Ny P - 1)"
    using n by (auto simp: in_grid_def)
  from corner_node_writes[OF v g(1) g(2) g(3)]
  obtain s1 where s1: "corner_node 0 0 1 0 0 1 s = Some s1"
    and w1': "writes P s s1 (\<lambda>a b. a = 0 \<and> b = 0)
      (\<lambda>a b. 5 / 10 * (rd s (Un_p1 s) 1 0 + rd s (Un_p1 s) 0 1))" by blast
  have w1: "writes P s s1 (\<lambda>a b. a = 0 \<and> b = 0) (corner_value P s)"
    by (rule writes_cong[OF w1']) (auto simp: corner_value_def)
  from corner_node_writes[OF writes_valid[OF w1] g(4) g(5) g(6)]
  obtain s2 where s2: "corner_node (Nx P - 1) 0 (Nx P - 2) 0 (Nx P - 1) 1 s1 = Some s2"
    and w2': "writes P s1 s2 (\<lambda>a b. a = Nx P - 1 \<and> b = 0)
      (\<lambda>a b. 5 / 10 * (rd s1 (Un_p1 s1) (Nx P - 2) 0 + rd s1 (Un_p1 s1) (Nx P - 1) 1))"
    by blast
  have w2: "writes P s1 s2 (\<lambda>a b. a = Nx P - 1 \<and> b = 0) (corner_value P s)"
    by (rule writes_cong[OF w2'])
      (use n in \<open>auto simp: corner_value_def writes_ptrs[OF w1] writes_rd_next[OF w1]\<close>)
  note w12 = writes_trans[OF w1 w2]
  from corner_node_writes[OF writes_valid[OF w2] g(7) g(8) g(9)]
  obtain s3 where s3: "corner_node (Nx P - 1) (Ny P - 1) (Nx P - 2) (Ny P - 1)
      (Nx P - 1) (Ny P - 2) s2 = Some s3"
    and w3': "writes P s2 s3 (\<lambda>a b. a = Nx P - 1 \<and> b = Ny P - 1)
      (\<lambda>a b. 5 / 10 * (rd s2 (Un_p1 s2) (Nx P - 2) (Ny P - 1)
                        + rd s2 (Un_p1 s2) (Nx P - 1) (Ny P - 2)))"
    by blast
  have w3: "writes P s2 s3 (\<lambda>a b. a = Nx P - 1 \<and> b = Ny P - 1) (corner_value P s)"
    by (rule writes_cong[OF w3'])
      (use n in \<open>auto simp: corner_value_def writes_ptrs[OF w12] writes_rd_next[OF w12]\<close>)
  note w123 = writes_trans[OF w12 w3]
  from corner_node_writes[OF writes_valid[OF w3] g(10) g(11) g(12)]
  obtain s4 where s4: "corner_node 0 (Ny P - 1) 0 (Ny P - 2) 1 (Ny P - 1) s3 = Some s4"
    and w4': "writes P s3 s4 (\<lambda>a b. a = 0 \<and> b = Ny P - 1)
      (\<lambda>a b. 5 / 10 * (rd s3 (Un_p1 s3) 0 (Ny P - 2) + rd s3 (Un_p1 s3) 1 (Ny P - 1)))"
    by blast
  have w4: "writes P s3 s4 (\<lambda>a b. a = 0 \<and> b = Ny P - 1) (corner_value P s)"
    by (rule writes_cong[OF w4'])
      (use n in \<open>auto simp: corner_value_def writes_ptrs[OF w123] writes_rd_next[OF w123]\<close>)
  have "writes P s s4 (corner P) (corner_value P s)"
    by (rule writes_cong[OF writes_trans[OF w123 w4]]) (auto simp: corner_def)
  moreover have "corner_nodes P s = Some s4"
    by (simp add: corner_nodes_def s1 s2 s3 s4)
  ultimately show ?thesis by blast
qed

lemma source_inside_dims: "source_inside P \<Longrightarrow> 3 \<le> Nx P \<and> 3 \<le> Ny P"
  by (auto simp: source_inside_def)

lemma source_inside_interior: "source_inside P \<Longrightarrow> interior P (xs1 P) (ys1 P)"
  by (auto simp: source_inside_def interior_def)

lemma compute_next_chain:
  assumes v: "valid_state P s" and n: "3 \<le> Nx P" "3 \<le> Ny P"
    and src: "in_grid P (xs1 P) (ys1 P)"
  shows "\<exists>s1 s2 s3 s4.
           interior_pass P s = Some s1 \<and> source_node P n s1 = Some s2 \<and>
           boundary_edges P s2 = Some s3 \<and> corner_nodes P s3 = Some s4 \<and>
           compute_next P n s = Some s4 \<and>
           writes P s s1 (interior P) (stencil P s) \<and>
           writes P s1 s2 (\<lambda>a b. a = xs1 P \<and> b = ys1 P) (\<lambda>a b. source P n) \<and>
           writes P s2 s3 (on_edge P) (boundary_value P s2) \<and>
           writes P s3 s4 (corner P) (corner_value P s3)"
proof -
  from interior_pass_writes[OF v] obtain s1 where s1: "interior_pass P s = Some s1"
    and w1: "writes P s s1 (interior P) (stencil P s)" by blast
  from source_node_writes[OF writes_valid[OF w1] src]
  obtain s2 where s2: "source_node P n s1 = Some s2"
    and w2: "writes P s1 s2 (\<lambda>a b. a = xs1 P \<and> b = ys1 P) (\<lambda>a b. source P n)" by blast
  from boundary_edges_writes[OF writes_valid[OF w2] n]
  obtain s3 where s3: "boundary_edges P s2 = Some s3"
    and w3: "writes P s2 s3 (on_edge P) (boundary_value P s2)" by blast
  from corner_nodes_writes[OF writes_valid[OF w3] n]
  obtain s4 where s4: "corner_nodes P s3 = Some s4"
    and w4: "writes P s3 s4 (corner P) (corner_value P s3)" by blast
  have "compute_next P n s = Some s4"
    by (simp add: compute_next_def s1 s2 s3 s4)
  with s1 s2 s3 s4 w1 w2 w3 w4 show ?thesis by blast
qed

lemma source_inside_in_grid: "source_inside P \<Longrightarrow> in_grid P (xs1 P) (ys1 P)"
  by (auto simp: source_inside_def in_grid_def)

lemma for_loop_all:
  assumes "\<And>k t. lo \<le> k \<Longrightarrow> k < n \<Longrightarrow> \<exists>t'. body k t = Some t'"
  shows "\<exists>s'. for_loop lo n body s = Some s'"
  using for_loop_rule[of "\<lambda>k t. True" lo s n body] assms by auto

lemma printWave_ok:
  assumes al: "allocated P (mem s) p"
  shows "\<exists>frame. printWave s p (Nx P) (Ny P) = Some (s\<lparr>terminal := terminal s @ [frame]\<rparr>)"
proof -
  let ?inner = "\<lambda>i. for_loop 0 (Ny P) (\<lambda>j ln. do {
         v \<leftarrow> load (mem s) p i j;
         Some (ln @ [getColor v])
       }) []"
  have inner: "\<exists>ln. ?inner i = Some ln" if "0 \<le> i" "i < Nx P" for i
  proof (rule for_loop_all)
    fix k t assume "0 \<le> k" "k < Ny P"
    then have "in_grid P i k" using that by (simp add: in_grid_def)
    then show "\<exists>t'. do {v \<leftarrow> load (mem s) p i k; Some (t @ [getColor v])} = Some t'"
      by (simp add: load_rd[OF al])
  qed
  have "\<exists>fr. for_loop 0 (Nx P) (\<lambda>i fr. do {line \<leftarrow> ?inner i; Some (fr @ [line])}) [] = Some fr"
  proof (rule for_loop_all)
    fix k t assume "0 \<le> k" "k < Nx P"
    from inner[OF this] show "\<exists>t'. do {line \<leftarrow> ?inner k; Some (t @ [line])} = Some t'"
      by auto
  qed
  then show ?thesis by (auto simp: printWave_def)
qed

lemma swap_references_simps [simp]:
  "Un_p1 (swap_references s) = Un_m1 s"
  "Un0 (swap_references s) = Un_p1 s"
  "Un_m1 (swap_references s) = Un0 s"
  "mem (swap_references s) = mem s"
  "terminal (swap_references s) = terminal s"
  by (simp_all add: swap_references_def)

lemma time_step_chain:
  assumes v: "valid_state P s" and n: "3 \<le> Nx P" "3 \<le> Ny P"
    and src: "in_grid P (xs1 P) (ys1 P)"
  shows "\<exists>s1 frame.
           compute_next P n s = Some s1 \<and> valid_state P s1 \<and> only_next s s1 \<and>
           printWave s1 (Un_p1 s1) (Nx P) (Ny P) = Some (s1\<lparr>terminal := terminal s1 @ [frame]\<rparr>) \<and>
           time_step P n s = Some (swap_references (s1\<lparr>terminal := terminal s1 @ [frame]\<rparr>))"
proof -
  from compute_next_chain[OF v n src, of n]
  obtain sa sb sc s1 where c: "compute_next P n s = Some s1"
    and w: "writes P s sa (interior P) (stencil P s)"
      "writes P sa sb (\<lambda>a b. a = xs1 P \<and> b = ys1 P) (\<lambda>a b. source P n)"
      "writes P sb sc (on_edge P) (boundary_value P sb)"
      "writes P sc s1 (corner P) (corner_value P sc)"
    by blast
  have v1: "valid_state P s1" by (rule writes_valid[OF w(4)])
  have o: "only_next s s1"
    using w by (auto simp: writes_def intro: only_next_trans)
  from printWave_ok[OF valid_stateD(1)[OF v1]]
  obtain frame where
    p: "printWave s1 (Un_p1 s1) (Nx P) (Ny P) = Some (s1\<lparr>terminal := terminal s1 @ [frame]\<rparr>)"
    by blast
  show ?thesis using c v1 o p by (auto simp: time_step_def)
qed

section \<open>The stencil of the interior pass\<close>

lemma is_grid_zero_grid: "0 \<le> Nx P \<Longrightarrow> 0 \<le> Ny P \<Longrightarrow> is_grid (Nx P) (Ny P) (zero_grid P)"
  by (simp add: is_grid_def zero_grid_def list_all_iff)

lemma valid_state_initial:
  "0 \<le> Nx P \<Longrightarrow> 0 \<le> Ny P \<Longrightarrow> valid_state P (initial_state P)"
  by (simp add: valid_state_def initial_state_def allocated_def is_grid_zero_grid)

lemma int_of_double_250_3: "int_of_double (250 / 3) = 83"
  by (simp add: int_of_double_def)

lemma Nx_wave_sim_c: "Nx wave_sim_c = 84"
proof -
  have "Lx wave_sim_c / dx wave_sim_c = 250 / 3" by (simp add: wave_sim_c_def)
  then show ?thesis unfolding Nx_def by (simp only: int_of_double_250_3)
qed

lemma Ny_wave_sim_c: "Ny wave_sim_c = 84"
proof -
  have "Ly wave_sim_c / dy wave_sim_c = 250 / 3" by (simp add: wave_sim_c_def)
  then show ?thesis unfolding Ny_def by (simp only: int_of_double_250_3)
qed

lemma valid_wave_sim_c: "valid_state wave_sim_c (initial_state wave_sim_c)"
  by (rule valid_state_initial) (simp_all add: Nx_wave_sim_c Ny_wave_sim_c)

text \<open>
  Claim C1. After the interior pass, and before the source is written, the next level
  holds at every interior node \<open>(i, j)\<close>, \<open>1 \<le> i \<le> Nx - 2\<close> and
  \<open>1 \<le> j \<le> Ny - 2\<close>, the value
  \<open>2 u + (c dt / dx)\<^sup>2 (u_right - 2 u + u_left) + (c dt / dy)\<^sup>2 (u_up - 2 u + u_down) - u_old\<close>,
  where \<open>u\<close> and its four neighbours are read from the current level and \<open>u_old\<close>
  from the previous level of the state in which the pass started.
\<close>

theorem interior_pass_stencil:
  assumes "valid_state P s" and "1 \<le> i" and "i \<le> Nx P - 2" and "1 \<le> j" and "j \<le> Ny P - 2"
  shows "\<exists>s1 u u_right u_left u_up u_down u_old.
           interior_pass P s = Some s1 \<and>
           load (mem s) (Un0 s) i j = Some u \<and>
           load (mem s) (Un0 s) (i + 1) j = Some u_right \<and>
           load (mem s) (Un0 s) (i - 1) j = Some u_left \<and>
           load (mem s) (Un0 s) i (j + 1) = Some u_up \<and>
           load (mem s) (Un0 s) i (j - 1) = Some u_down \<and>
           load (mem s) (Un_m1 s) i j = Some u_old \<and>
           load (mem s1) (Un_p1 s1) i j =
             Some (2 * u
                   + (of_int (c P) * dt P / dx P)\<^sup>2 * (u_right - 2 * u + u_left)
                   + (of_int (c P) * dt P / dy P)\<^sup>2 * (u_up - 2 * u + u_down)
                   - u_old)"
proof -
  have i: "interior P i j" using assms by (simp add: interior_def)
  note g = interior_in_grid[OF i]
  note al = valid_stateD(1-3)[OF assms(1)]
  from interior_pass_writes[OF assms(1)] obtain s1 where s1: "interior_pass P s = Some s1"
    and w: "writes P s s1 (interior P) (stencil P s)" by blast
  have "load (mem s1) (Un_p1 s1) i j = Some (stencil P s i j)"
    using load_rd[OF valid_stateD(1)[OF writes_valid[OF w]] g(1)] writes_rd_next[OF w, of i j] i
    by (simp add: writes_ptrs[OF w])
  then show ?thesis
    using s1 load_rd[OF al(2)] load_rd[OF al(3)] g
    by (simp add: stencil_def Ox_def Oy_def power2_eq_square)
qed

theorem interior_pass_stencil_witness:
  "valid_state wave_sim_c (initial_state wave_sim_c) \<and>
   (\<exists>s1 u u_right u_left u_up u_down u_old.
      interior_pass wave_sim_c (initial_state wave_sim_c) = Some s1 \<and>
      load (mem (initial_state wave_sim_c)) (Un0 (initial_state wave_sim_c)) 50 50 = Some u \<and>
      load (mem (initial_state wave_sim_c)) (Un0 (initial_state wave_sim_c)) (50 + 1) 50
        = Some u_right \<and>
      load (mem (initial_state wave_sim_c)) (Un0 (initial_state wave_sim_c)) (50 - 1) 50
        = Some u_left \<and>
      load (mem (initial_state wave_sim_c)) (Un0 (initial_state wave_sim_c)) 50 (50 + 1)
        = Some u_up \<and>
      load (mem (initial_state wave_sim_c)) (Un0 (initial_state wave_sim_c)) 50 (50 - 1)
        = Some u_down \<and>
      load (mem (initial_state wave_sim_c)) (Un_m1 (initial_state wave_sim_c)) 50 50
        = Some u_old \<and>
      load (mem s1) (Un_p1 s1) 50 50 =
        Some (2 * u
              + (of_int (c wave_sim_c) * dt wave_sim_c / dx wave_sim_c)\<^sup>2
                  * (u_right - 2 * u + u_left)
              + (of_int (c wave_sim_c) * dt wave_sim_c / dy wave_sim_c)\<^sup>2
                  * (u_up - 2 * u + u_down)
              - u_old))"
proof -
  have b: "(1::int) \<le> 50" "50 \<le> Nx wave_sim_c - 2" "50 \<le> Ny wave_sim_c - 2"
    by (simp_all add: Nx_wave_sim_c Ny_wave_sim_c)
  from interior_pass_stencil[OF valid_wave_sim_c b(1) b(2) b(1) b(3)] valid_wave_sim_c
  show ?thesis by blast
qed

section \<open>The edge formulas\<close>

lemma on_edge_not_interior:
  "on_edge P a b \<Longrightarrow> \<not> interior P a b"
  by (auto simp: on_edge_def interior_def left_edge_def right_edge_def top_edge_def bottom_edge_def)

lemma interior_not_on_edge: "interior P a b \<Longrightarrow> \<not> on_edge P a b"
  using on_edge_not_interior by blast

lemma interior_not_corner: "interior P a b \<Longrightarrow> \<not> corner P a b"
  by (auto simp: corner_def interior_def)

lemma on_edge_not_corner: "on_edge P a b \<Longrightarrow> \<not> corner P a b"
  by (auto simp: on_edge_def corner_def left_edge_def right_edge_def top_edge_def bottom_edge_def)

lemma on_edge_in_grid: "3 \<le> Nx P \<Longrightarrow> 3 \<le> Ny P \<Longrightarrow> on_edge P a b \<Longrightarrow> in_grid P a b"
  by (auto simp: on_edge_def in_grid_def left_edge_def right_edge_def top_edge_def bottom_edge_def)

lemma corner_in_grid: "3 \<le> Nx P \<Longrightarrow> 3 \<le> Ny P \<Longrightarrow> corner P a b \<Longrightarrow> in_grid P a b"
  by (auto simp: corner_def in_grid_def)

lemma writes_load_next:
  assumes w: "writes P s t D f" and g: "in_grid P a b"
  shows "load (mem t) (Un_p1 t) a b = Some (if D a b then f a b else rd s (Un_p1 s) a b)"
  using load_rd[OF valid_stateD(1)[OF writes_valid[OF w]] g] writes_rd_next[OF w, of a b]
  by (simp add: writes_ptrs[OF w])

text \<open>
  Claim C2. After the four edge loops, with \<open>Rx = (c dt - dx) / (c dt + dx)\<close> and
  \<open>Ry = (c dt - dy) / (c dt + dy)\<close>: for \<open>1 \<le> j \<le> Ny - 2\<close> the right edge holds
  \<open>next[Nx-1,j] = current[Nx-2,j] + Rx (next[Nx-2,j] - current[Nx-1,j])\<close> and the left edge
  \<open>next[0,j] = current[1,j] + Rx (next[1,j] - current[0,j])\<close>; for \<open>1 \<le> i \<le> Nx - 2\<close>
  the top edge holds \<open>next[i,Ny-1] = current[i,Ny-2] + Ry (next[i,Ny-2] - current[i,Ny-1])\<close>
  and the bottom edge \<open>next[i,0] = current[i,1] + Ry (next[i,1] - current[i,0])\<close>. The
  next-level value that an edge reads belongs to an interior node; it was in place before
  the edge loops started, and they do not change it.
\<close>

theorem boundary_edges_extrapolation:
  assumes "valid_state P s" and "3 \<le> Nx P" and "3 \<le> Ny P"
    and "1 \<le> i" and "i \<le> Nx P - 2" and "1 \<le> j" and "j \<le> Ny P - 2"
  shows "\<exists>s'. boundary_edges P s = Some s' \<and>
     (\<exists>u_in v_in u.
        load (mem s) (Un0 s) (Nx P - 2) j = Some u_in \<and>
        load (mem s) (Un_p1 s) (Nx P - 2) j = Some v_in \<and>
        load (mem s') (Un_p1 s') (Nx P - 2) j = Some v_in \<and>
        load (mem s) (Un0 s) (Nx P - 1) j = Some u \<and>
        load (mem s') (Un_p1 s') (Nx P - 1) j =
          Some (u_in + (of_int (c P) * dt P - dx P) / (of_int (c P) * dt P + dx P) * (v_in - u))) \<and>
     (\<exists>u_in v_in u.
        load (mem s) (Un0 s) 1 j = Some u_in \<and>
        load (mem s) (Un_p1 s) 1 j = Some v_in \<and>
        load (mem s') (Un_p1 s') 1 j = Some v_in \<and>
        load (mem s) (Un0 s) 0 j = Some u \<and>
        load (mem s') (Un_p1 s') 0 j =
          Some (u_in + (of_int (c P) * dt P - dx P) / (of_int (c P) * dt P + dx P) * (v_in - u))) \<and>
     (\<exists>u_in v_in u.
        load (mem s) (Un0 s) i (Ny P - 2) = Some u_in \<and>
        load (mem s) (Un_p1 s) i (Ny P - 2) = Some v_in \<and>
        load (mem s') (Un_p1 s') i (Ny P - 2) = Some v_in \<and>
        load (mem s) (Un0 s) i (Ny P - 1) = Some u \<and>
        load (mem s') (Un_p1 s') i (Ny P - 1) =
          Some (u_in + (of_int (c P) * dt P - dy P) / (of_int (c P) * dt P + dy P) * (v_in - u))) \<and>
     (\<exists>u_in v_in u.
        load (mem s) (Un0 s) i 1 = Some u_in \<and>
        load (mem s) (Un_p1 s) i 1 = Some v_in \<and>
        load (mem s') (Un_p1 s') i 1 = Some v_in \<and>
        load (mem s) (Un0 s) i 0 = Some u \<and>
        load (mem s') (Un_p1 s') i 0 =
          Some (u_in + (of_int (c P) * dt P - dy P) / (of_int (c P) * dt P + dy P) * (v_in - u)))"
proof -
  note v = assms(1) and n = assms(2,3)
  note al = valid_stateD(1-3)[OF v]
  from boundary_edges_writes[OF v n] obtain s' where s': "boundary_edges P s = Some s'"
    and w: "writes P s s' (on_edge P) (boundary_value P s)" by blast
  have g: "in_grid P (Nx P - 2) j" "in_grid P (Nx P - 1) j" "in_grid P 1 j" "in_grid P 0 j"
    "in_grid P i (Ny P - 2)" "in_grid P i (Ny P - 1)" "in_grid P i 1" "in_grid P i 0"
    using assms(2-) by (auto simp: in_grid_def)
  have e: "right_edge P (Nx P - 1) j" "left_edge P 0 j" "top_edge P i (Ny P - 1)"
    "bottom_edge P i 0"
    "\<not> left_edge P (Nx P - 1) j" "\<not> left_edge P i (Ny P - 1)" "\<not> right_edge P i (Ny P - 1)"
    "\<not> left_edge P i 0" "\<not> right_edge P i 0" "\<not> top_edge P i 0"
    using assms(2-)
    by (auto simp: left_edge_def right_edge_def top_edge_def bottom_edge_def)
  have i: "\<not> on_edge P (Nx P - 2) j" "\<not> on_edge P 1 j" "\<not> on_edge P i (Ny P - 2)"
    "\<not> on_edge P i 1"
    using assms(2-) by (auto intro!: interior_not_on_edge simp: interior_def)
  have o: "on_edge P (Nx P - 1) j" "on_edge P 0 j" "on_edge P i (Ny P - 1)" "on_edge P i 0"
    using e by (auto simp: on_edge_def)
  have right: "\<exists>u_in v_in u.
        load (mem s) (Un0 s) (Nx P - 2) j = Some u_in \<and>
        load (mem s) (Un_p1 s) (Nx P - 2) j = Some v_in \<and>
        load (mem s') (Un_p1 s') (Nx P - 2) j = Some v_in \<and>
        load (mem s) (Un0 s) (Nx P - 1) j = Some u \<and>
        load (mem s') (Un_p1 s') (Nx P - 1) j =
          Some (u_in + (of_int (c P) * dt P - dx P) / (of_int (c P) * dt P + dx P) * (v_in - u))"
    using writes_load_next[OF w g(1)] writes_load_next[OF w g(2)] i(1) o(1) e
      load_rd[OF al(1) g(1)] load_rd[OF al(2) g(1)] load_rd[OF al(2) g(2)]
    by (simp add: boundary_value_def edge_value_def Rx_def)
  have left: "\<exists>u_in v_in u.
        load (mem s) (Un0 s) 1 j = Some u_in \<and>
        load (mem s) (Un_p1 s) 1 j = Some v_in \<and>
        load (mem s') (Un_p1 s') 1 j = Some v_in \<and>
        load (mem s) (Un0 s) 0 j = Some u \<and>
        load (mem s') (Un_p1 s') 0 j =
          Some (u_in + (of_int (c P) * dt P - dx P) / (of_int (c P) * dt P + dx P) * (v_in - u))"
    using writes_load_next[OF w g(3)] writes_load_next[OF w g(4)] i(2) o(2) e
      load_rd[OF al(1) g(3)] load_rd[OF al(2) g(3)] load_rd[OF al(2) g(4)]
    by (simp add: boundary_value_def edge_value_def Rx_def)
  have top: "\<exists>u_in v_in u.
        load (mem s) (Un0 s) i (Ny P - 2) = Some u_in \<and>
        load (mem s) (Un_p1 s) i (Ny P - 2) = Some v_in \<and>
        load (mem s') (Un_p1 s') i (Ny P - 2) = Some v_in \<and>
        load (mem s) (Un0 s) i (Ny P - 1) = Some u \<and>
        load (mem s') (Un_p1 s') i (Ny P - 1) =
          Some (u_in + (of_int (c P) * dt P - dy P) / (of_int (c P) * dt P + dy P) * (v_in - u))"
    using writes_load_next[OF w g(5)] writes_load_next[OF w g(6)] i(3) o(3) e
      load_rd[OF al(1) g(5)] load_rd[OF al(2) g(5)] load_rd[OF al(2) g(6)]
    by (simp add: boundary_value_def edge_value_def Ry_def)
  have bottom: "\<exists>u_in v_in u.
        load (mem s) (Un0 s) i 1 = Some u_in \<and>
        load (mem s) (Un_p1 s) i 1 = Some v_in \<and>
        load (mem s') (Un_p1 s') i 1 = Some v_in \<and>
        load (mem s) (Un0 s) i 0 = Some u \<and>
        load (mem s') (Un_p1 s') i 0 =
          Some (u_in + (of_int (c P) * dt P - dy P) / (of_int (c P) * dt P + dy P) * (v_in - u))"
    using writes_load_next[OF w g(7)] writes_load_next[OF w g(8)] i(4) o(4) e
      load_rd[OF al(1) g(7)] load_rd[OF al(2) g(7)] load_rd[OF al(2) g(8)]
    by (simp add: boundary_value_def edge_value_def Ry_def)
  from s' right left top bottom show ?thesis by blast
qed

theorem boundary_edges_extrapolation_witness:
  "valid_state wave_sim_c (initial_state wave_sim_c) \<and> 3 \<le> Nx wave_sim_c \<and> 3 \<le> Ny wave_sim_c \<and>
   (1::int) \<le> 50 \<and> 50 \<le> Nx wave_sim_c - 2 \<and> (1::int) \<le> 50 \<and> 50 \<le> Ny wave_sim_c - 2 \<and>
   (\<exists>s'. boundary_edges wave_sim_c (initial_state wave_sim_c) = Some s' \<and>
     (\<exists>u_in v_in u.
        load (mem (initial_state wave_sim_c)) (Un0 (initial_state wave_sim_c)) (Nx wave_sim_c - 2) 50 = Some u_in \<and>
        load (mem (initial_state wave_sim_c)) (Un_p1 (initial_state wave_sim_c)) (Nx wave_sim_c - 2) 50 = Some v_in \<and>
        load (mem s') (Un_p1 s') (Nx wave_sim_c - 2) 50 = Some v_in \<and>
        load (mem (initial_state wave_sim_c)) (Un0 (initial_state wave_sim_c)) (Nx wave_sim_c - 1) 50 = Some u \<and>
        load (mem s') (Un_p1 s') (Nx wave_sim_c - 1) 50 =
          Some (u_in + (of_int (c wave_sim_c) * dt wave_sim_c - dx wave_sim_c) / (of_int (c wave_sim_c) * dt wave_sim_c + dx wave_sim_c) * (v_in - u))) \<and>
     (\<exists>u_in v_in u.
        load (mem (initial_state wave_sim_c)) (Un0 (initial_state wave_sim_c)) 1 50 = Some u_in \<and>
        load (mem (initial_state wave_sim_c)) (Un_p1 (initial_state wave_sim_c)) 1 50 = Some v_in \<and>
        load (mem s') (Un_p1 s') 1 50 = Some v_in \<and>
        load (mem (initial_state wave_sim_c)) (Un0 (initial_state wave_sim_c)) 0 50 = Some u \<and>
        load (mem s') (Un_p1 s') 0 50 =
          Some (u_in + (of_int (c wave_sim_c) * dt wave_sim_c - dx wave_sim_c) / (of_int (c wave_sim_c) * dt wave_sim_c + dx wave_sim_c) * (v_in - u))) \<and>
     (\<exists>u_in v_in u.
        load (mem (initial_state wave_sim_c)) (Un0 (initial_state wave_sim_c)) 50 (Ny wave_sim_c - 2) = Some u_in \<and>
        load (mem (initial_state wave_sim_c)) (Un_p1 (initial_state wave_sim_c)) 50 (Ny wave_sim_c - 2) = Some v_in \<and>
        load (mem s') (Un_p1 s') 50 (Ny wave_sim_c - 2) = Some v_in \<and>
        load (mem (initial_state wave_sim_c)) (Un0 (initial_state wave_sim_c)) 50 (Ny wave_sim_c - 1) = Some u \<and>
        load (mem s') (Un_p1 s') 50 (Ny wave_sim_c - 1) =
          Some (u_in + (of_int (c wave_sim_c) * dt wave_sim_c - dy wave_sim_c) / (of_int (c wave_sim_c) * dt wave_sim_c + dy wave_sim_c) * (v_in - u))) \<and>
     (\<exists>u_in v_in u.
        load (mem (initial_state wave_sim_c)) (Un0 (initial_state wave_sim_c)) 50 1 = Some u_in \<and>
        load (mem (initial_state wave_sim_c)) (Un_p1 (initial_state wave_sim_c)) 50 1 = Some v_in \<and>
        load (mem s') (Un_p1 s') 50 1 = Some v_in \<and>
        load (mem (initial_state wave_sim_c)) (Un0 (initial_state wave_sim_c)) 50 0 = Some u \<and>
        load (mem s') (Un_p1 s') 50 0 =
          Some (u_in + (of_int (c wave_sim_c) * dt wave_sim_c - dy wave_sim_c) / (of_int (c wave_sim_c) * dt wave_sim_c + dy wave_sim_c) * (v_in - u))))"
proof -
  have b: "3 \<le> Nx wave_sim_c" "3 \<le> Ny wave_sim_c" "(1::int) \<le> 50"
    "50 \<le> Nx wave_sim_c - 2" "50 \<le> Ny wave_sim_c - 2"
    by (simp_all add: Nx_wave_sim_c Ny_wave_sim_c)
  from boundary_edges_extrapolation[OF valid_wave_sim_c b(1) b(2) b(3) b(4) b(3) b(5)]
    valid_wave_sim_c b
  show ?thesis by blast
qed

section \<open>The source node\<close>

lemma source_wave_sim_c: "source_inside wave_sim_c"
  by (simp add: source_inside_def Nx_wave_sim_c Ny_wave_sim_c) (simp add: wave_sim_c_def)

lemma source_inside_not_edge: "source_inside P \<Longrightarrow> \<not> on_edge P (xs1 P) (ys1 P)"
  by (rule interior_not_on_edge[OF source_inside_interior])

lemma source_inside_not_corner: "source_inside P \<Longrightarrow> \<not> corner P (xs1 P) (ys1 P)"
  by (rule interior_not_corner[OF source_inside_interior])

lemma valid_state_swap:
  "valid_state P s \<Longrightarrow> valid_state P (swap_references (s\<lparr>terminal := tm\<rparr>))"
  by (auto simp: valid_state_def)

lemma load_swap [simp]: "load (mem (swap_references s)) = load (mem s)"
  by simp

text \<open>
  Claim C3. In step \<open>n\<close> the source pass leaves
  \<open>amplitude * exp (- ((n dt - T0) / (w / 2))\<^sup>2) * sin ((2 pi c / l) * (n dt))\<close> at the
  source node of the next level, whatever the interior pass had written there, and the
  value is still there after the edge loops, after the corner assignments, and in the
  current level with which the iteration ends.
\<close>

theorem source_node_forcing:
  assumes "valid_state P s" and "source_inside P"
  shows "\<exists>s1 s2 s3 s4 s5.
           interior_pass P s = Some s1 \<and> source_node P n s1 = Some s2 \<and>
           boundary_edges P s2 = Some s3 \<and> corner_nodes P s3 = Some s4 \<and>
           compute_next P n s = Some s4 \<and> time_step P n s = Some s5 \<and>
           load (mem s2) (Un_p1 s2) (xs1 P) (ys1 P) =
             Some (amplitude P * exp (- (((of_int n * dt P - T0 P) / (w P / 2))\<^sup>2))
                   * sin ((2 * pi * of_int (c P) / l P) * (of_int n * dt P))) \<and>
           load (mem s3) (Un_p1 s3) (xs1 P) (ys1 P) = load (mem s2) (Un_p1 s2) (xs1 P) (ys1 P) \<and>
           load (mem s4) (Un_p1 s4) (xs1 P) (ys1 P) = load (mem s2) (Un_p1 s2) (xs1 P) (ys1 P) \<and>
           load (mem s5) (Un0 s5) (xs1 P) (ys1 P) = load (mem s2) (Un_p1 s2) (xs1 P) (ys1 P)"
proof -
  note v = assms(1) and src = assms(2)
  note n = source_inside_dims[OF src]
  note g = source_inside_in_grid[OF src]
  from n have n3: "3 \<le> Nx P" "3 \<le> Ny P" by auto
  from compute_next_chain[OF v n3 g, of n]
  obtain s1 s2 s3 s4 where p: "interior_pass P s = Some s1" "source_node P n s1 = Some s2"
      "boundary_edges P s2 = Some s3" "corner_nodes P s3 = Some s4"
      "compute_next P n s = Some s4"
    and w: "writes P s s1 (interior P) (stencil P s)"
      "writes P s1 s2 (\<lambda>a b. a = xs1 P \<and> b = ys1 P) (\<lambda>a b. source P n)"
      "writes P s2 s3 (on_edge P) (boundary_value P s2)"
      "writes P s3 s4 (corner P) (corner_value P s3)"
    by blast
  from time_step_chain[OF v n3 g, of n] p(5)
  obtain frame where t: "time_step P n s =
      Some (swap_references (s4\<lparr>terminal := terminal s4 @ [frame]\<rparr>))"
    by auto
  have l2: "load (mem s2) (Un_p1 s2) (xs1 P) (ys1 P) = Some (source P n)"
    using writes_load_next[OF w(2) g] by simp
  have r2: "rd s2 (Un_p1 s2) (xs1 P) (ys1 P) = source P n"
    using l2 by (simp add: rd_def)
  have l3: "load (mem s3) (Un_p1 s3) (xs1 P) (ys1 P) = Some (source P n)"
    using writes_load_next[OF w(3) g] source_inside_not_edge[OF src] r2 by simp
  have r3: "rd s3 (Un_p1 s3) (xs1 P) (ys1 P) = source P n"
    using l3 by (simp add: rd_def)
  have l4: "load (mem s4) (Un_p1 s4) (xs1 P) (ys1 P) = Some (source P n)"
    using writes_load_next[OF w(4) g] source_inside_not_corner[OF src] r3 by simp
  have l5: "load (mem (swap_references (s4\<lparr>terminal := terminal s4 @ [frame]\<rparr>)))
      (Un0 (swap_references (s4\<lparr>terminal := terminal s4 @ [frame]\<rparr>))) (xs1 P) (ys1 P)
      = Some (source P n)"
    using l4 by simp
  have "source P n = amplitude P * exp (- (((of_int n * dt P - T0 P) / (w P / 2))\<^sup>2))
                   * sin ((2 * pi * of_int (c P) / l P) * (of_int n * dt P))"
    by (simp add: source_def)
  with p t l2 l3 l4 l5 show ?thesis by (metis (no_types, lifting))
qed

theorem source_node_forcing_witness:
  "(valid_state wave_sim_c (initial_state wave_sim_c)) \<and>
   (source_inside wave_sim_c) \<and>
   (\<exists>s1 s2 s3 s4 s5.
           interior_pass wave_sim_c (initial_state wave_sim_c) = Some s1 \<and> source_node wave_sim_c (7::int) s1 = Some s2 \<and>
           boundary_edges wave_sim_c s2 = Some s3 \<and> corner_nodes wave_sim_c s3 = Some s4 \<and>
           compute_next wave_sim_c (7::int) (initial_state wave_sim_c) = Some s4 \<and> time_step wave_sim_c (7::int) (initial_state wave_sim_c) = Some s5 \<and>
           load (mem s2) (Un_p1 s2) (xs1 wave_sim_c) (ys1 wave_sim_c) =
             Some (amplitude wave_sim_c * exp (- (((of_int (7::int) * dt wave_sim_c - T0 wave_sim_c) / (w wave_sim_c / 2))\<^sup>2))
                   * sin ((2 * pi * of_int (c wave_sim_c) / l wave_sim_c) * (of_int (7::int) * dt wave_sim_c))) \<and>
           load (mem s3) (Un_p1 s3) (xs1 wave_sim_c) (ys1 wave_sim_c) = load (mem s2) (Un_p1 s2) (xs1 wave_sim_c) (ys1 wave_sim_c) \<and>
           load (mem s4) (Un_p1 s4) (xs1 wave_sim_c) (ys1 wave_sim_c) = load (mem s2) (Un_p1 s2) (xs1 wave_sim_c) (ys1 wave_sim_c) \<and>
           load (mem s5) (Un0 s5) (xs1 wave_sim_c) (ys1 wave_sim_c) = load (mem s2) (Un_p1 s2) (xs1 wave_sim_c) (ys1 wave_sim_c))"
proof -
  have h1: "valid_state wave_sim_c (initial_state wave_sim_c)"
    by (simp_all add: valid_wave_sim_c source_wave_sim_c)
  have h2: "source_inside wave_sim_c"
    by (simp_all add: valid_wave_sim_c source_wave_sim_c)
  from source_node_forcing [OF h1 h2, where n = 7]
    h1 h2
  show ?thesis by blast
qed

section \<open>The corners\<close>

text \<open>
  Claim C4. The corner assignments run after the four edge loops, and when the next
  level is complete each corner is the mean of its two neighbours on the adjacent edges,
  whose values are the ones the edge loops produced:
  \<open>next[0,0] = 0.5 (next[1,0] + next[0,1])\<close>,
  \<open>next[Nx-1,0] = 0.5 (next[Nx-2,0] + next[Nx-1,1])\<close>,
  \<open>next[Nx-1,Ny-1] = 0.5 (next[Nx-2,Ny-1] + next[Nx-1,Ny-2])\<close> and
  \<open>next[0,Ny-1] = 0.5 (next[0,Ny-2] + next[1,Ny-1])\<close>.
\<close>

theorem corner_nodes_average:
  assumes "valid_state P s" and "source_inside P"
  shows "\<exists>s2 s3 s4.
     Option.bind (interior_pass P s) (source_node P n) = Some s2 \<and>
     boundary_edges P s2 = Some s3 \<and> corner_nodes P s3 = Some s4 \<and>
     compute_next P n s = Some s4 \<and>
     (\<exists>a b.
        load (mem s3) (Un_p1 s3) 1 0 = Some a \<and>
        load (mem s3) (Un_p1 s3) 0 1 = Some b \<and>
        load (mem s4) (Un_p1 s4) 1 0 = Some a \<and>
        load (mem s4) (Un_p1 s4) 0 1 = Some b \<and>
        load (mem s4) (Un_p1 s4) 0 0 = Some (0.5 * (a + b))) \<and>
     (\<exists>a b.
        load (mem s3) (Un_p1 s3) (Nx P - 2) 0 = Some a \<and>
        load (mem s3) (Un_p1 s3) (Nx P - 1) 1 = Some b \<and>
        load (mem s4) (Un_p1 s4) (Nx P - 2) 0 = Some a \<and>
        load (mem s4) (Un_p1 s4) (Nx P - 1) 1 = Some b \<and>
        load (mem s4) (Un_p1 s4) (Nx P - 1) 0 = Some (0.5 * (a + b))) \<and>
     (\<exists>a b.
        load (mem s3) (Un_p1 s3) (Nx P - 2) (Ny P - 1) = Some a \<and>
        load (mem s3) (Un_p1 s3) (Nx P - 1) (Ny P - 2) = Some b \<and>
        load (mem s4) (Un_p1 s4) (Nx P - 2) (Ny P - 1) = Some a \<and>
        load (mem s4) (Un_p1 s4) (Nx P - 1) (Ny P - 2) = Some b \<and>
        load (mem s4) (Un_p1 s4) (Nx P - 1) (Ny P - 1) = Some (0.5 * (a + b))) \<and>
     (\<exists>a b.
        load (mem s3) (Un_p1 s3) 0 (Ny P - 2) = Some a \<and>
        load (mem s3) (Un_p1 s3) 1 (Ny P - 1) = Some b \<and>
        load (mem s4) (Un_p1 s4) 0 (Ny P - 2) = Some a \<and>
        load (mem s4) (Un_p1 s4) 1 (Ny P - 1) = Some b \<and>
        load (mem s4) (Un_p1 s4) 0 (Ny P - 1) = Some (0.5 * (a + b)))"
proof -
  note v = assms(1) and src = assms(2)
  note n = source_inside_dims[OF src]
  note g = source_inside_in_grid[OF src]
  from n have n3: "3 \<le> Nx P" "3 \<le> Ny P" by auto
  from compute_next_chain[OF v n3 g, of n]
  obtain s1 s2 s3 s4 where p: "interior_pass P s = Some s1" "source_node P n s1 = Some s2"
      "boundary_edges P s2 = Some s3" "corner_nodes P s3 = Some s4"
      "compute_next P n s = Some s4"
    and w3: "writes P s2 s3 (on_edge P) (boundary_value P s2)"
    and w: "writes P s3 s4 (corner P) (corner_value P s3)"
    by blast
  have v3: "valid_state P s3" by (rule writes_valid[OF w3])
  have gr: "in_grid P 0 0" "in_grid P 1 0" "in_grid P 0 1"
    "in_grid P (Nx P - 1) 0" "in_grid P (Nx P - 2) 0" "in_grid P (Nx P - 1) 1"
    "in_grid P (Nx P - 1) (Ny P - 1)" "in_grid P (Nx P - 2) (Ny P - 1)"
    "in_grid P (Nx P - 1) (Ny P - 2)"
    "in_grid P 0 (Ny P - 1)" "in_grid P 0 (Ny P - 2)" "in_grid P 1 (Ny P - 1)"
    using n3 by (auto simp: in_grid_def)
  have co: "corner P 0 0" "\<not> corner P 1 0" "\<not> corner P 0 1"
    "corner P (Nx P - 1) 0" "\<not> corner P (Nx P - 2) 0" "\<not> corner P (Nx P - 1) 1"
    "corner P (Nx P - 1) (Ny P - 1)" "\<not> corner P (Nx P - 2) (Ny P - 1)"
    "\<not> corner P (Nx P - 1) (Ny P - 2)"
    "corner P 0 (Ny P - 1)" "\<not> corner P 0 (Ny P - 2)" "\<not> corner P 1 (Ny P - 1)"
    using n3 by (auto simp: corner_def)
  note al = valid_stateD(1)[OF v3]
  note ld = writes_load_next[OF w] load_rd[OF al]

  have c00: "(\<exists>a b.
        load (mem s3) (Un_p1 s3) 1 0 = Some a \<and>
        load (mem s3) (Un_p1 s3) 0 1 = Some b \<and>
        load (mem s4) (Un_p1 s4) 1 0 = Some a \<and>
        load (mem s4) (Un_p1 s4) 0 1 = Some b \<and>
        load (mem s4) (Un_p1 s4) 0 0 = Some (0.5 * (a + b)))"
    using ld(1)[OF gr(1)] ld(1)[OF gr(2)] ld(1)[OF gr(3)] ld(2)[OF gr(2)] ld(2)[OF gr(3)] co n3
    by (simp add: corner_value_def)
  have c10: "(\<exists>a b.
        load (mem s3) (Un_p1 s3) (Nx P - 2) 0 = Some a \<and>
        load (mem s3) (Un_p1 s3) (Nx P - 1) 1 = Some b \<and>
        load (mem s4) (Un_p1 s4) (Nx P - 2) 0 = Some a \<and>
        load (mem s4) (Un_p1 s4) (Nx P - 1) 1 = Some b \<and>
        load (mem s4) (Un_p1 s4) (Nx P - 1) 0 = Some (0.5 * (a + b)))"
    using ld(1)[OF gr(4)] ld(1)[OF gr(5)] ld(1)[OF gr(6)] ld(2)[OF gr(5)] ld(2)[OF gr(6)] co n3
    by (simp add: corner_value_def)
  have c11: "(\<exists>a b.
        load (mem s3) (Un_p1 s3) (Nx P - 2) (Ny P - 1) = Some a \<and>
        load (mem s3) (Un_p1 s3) (Nx P - 1) (Ny P - 2) = Some b \<and>
        load (mem s4) (Un_p1 s4) (Nx P - 2) (Ny P - 1) = Some a \<and>
        load (mem s4) (Un_p1 s4) (Nx P - 1) (Ny P - 2) = Some b \<and>
        load (mem s4) (Un_p1 s4) (Nx P - 1) (Ny P - 1) = Some (0.5 * (a + b)))"
    using ld(1)[OF gr(7)] ld(1)[OF gr(8)] ld(1)[OF gr(9)] ld(2)[OF gr(8)] ld(2)[OF gr(9)] co n3
    by (simp add: corner_value_def)
  have c01: "(\<exists>a b.
        load (mem s3) (Un_p1 s3) 0 (Ny P - 2) = Some a \<and>
        load (mem s3) (Un_p1 s3) 1 (Ny P - 1) = Some b \<and>
        load (mem s4) (Un_p1 s4) 0 (Ny P - 2) = Some a \<and>
        load (mem s4) (Un_p1 s4) 1 (Ny P - 1) = Some b \<and>
        load (mem s4) (Un_p1 s4) 0 (Ny P - 1) = Some (0.5 * (a + b)))"
    using ld(1)[OF gr(10)] ld(1)[OF gr(11)] ld(1)[OF gr(12)] ld(2)[OF gr(11)] ld(2)[OF gr(12)] co n3
    by (simp add: corner_value_def)
  have "Option.bind (interior_pass P s) (source_node P n) = Some s2"
    by (simp add: p)
  with p(3-5) c00 c10 c11 c01 show ?thesis
    by (intro exI[of _ s2] exI[of _ s3] exI[of _ s4]) (intro conjI)
qed

theorem corner_nodes_average_witness:
  "(valid_state wave_sim_c (initial_state wave_sim_c)) \<and>
   (source_inside wave_sim_c) \<and>
   (\<exists>s2 s3 s4.
     Option.bind (interior_pass wave_sim_c (initial_state wave_sim_c)) (source_node wave_sim_c (0::int)) = Some s2 \<and>
     boundary_edges wave_sim_c s2 = Some s3 \<and> corner_nodes wave_sim_c s3 = Some s4 \<and>
     compute_next wave_sim_c (0::int) (initial_state wave_sim_c) = Some s4 \<and>
     (\<exists>a b.
        load (mem s3) (Un_p1 s3) 1 0 = Some a \<and>
        load (mem s3) (Un_p1 s3) 0 1 = Some b \<and>
        load (mem s4) (Un_p1 s4) 1 0 = Some a \<and>
        load (mem s4) (Un_p1 s4) 0 1 = Some b \<and>
        load (mem s4) (Un_p1 s4) 0 0 = Some (0.5 * (a + b))) \<and>
     (\<exists>a b.
        load (mem s3) (Un_p1 s3) (Nx wave_sim_c - 2) 0 = Some a \<and>
        load (mem s3) (Un_p1 s3) (Nx wave_sim_c - 1) 1 = Some b \<and>
        load (mem s4) (Un_p1 s4) (Nx wave_sim_c - 2) 0 = Some a \<and>
        load (mem s4) (Un_p1 s4) (Nx wave_sim_c - 1) 1 = Some b \<and>
        load (mem s4) (Un_p1 s4) (Nx wave_sim_c - 1) 0 = Some (0.5 * (a + b))) \<and>
     (\<exists>a b.
        load (mem s3) (Un_p1 s3) (Nx wave_sim_c - 2) (Ny wave_sim_c - 1) = Some a \<and>
        load (mem s3) (Un_p1 s3) (Nx wave_sim_c - 1) (Ny wave_sim_c - 2) = Some b \<and>
        load (mem s4) (Un_p1 s4) (Nx wave_sim_c - 2) (Ny wave_sim_c - 1) = Some a \<and>
        load (mem s4) (Un_p1 s4) (Nx wave_sim_c - 1) (Ny wave_sim_c - 2) = Some b \<and>
        load (mem s4) (Un_p1 s4) (Nx wave_sim_c - 1) (Ny wave_sim_c - 1) = Some (0.5 * (a + b))) \<and>
     (\<exists>a b.
        load (mem s3) (Un_p1 s3) 0 (Ny wave_sim_c - 2) = Some a \<and>
        load (mem s3) (Un_p1 s3) 1 (Ny wave_sim_c - 1) = Some b \<and>
        load (mem s4) (Un_p1 s4) 0 (Ny wave_sim_c - 2) = Some a \<and>
        load (mem s4) (Un_p1 s4) 1 (Ny wave_sim_c - 1) = Some b \<and>
        load (mem s4) (Un_p1 s4) 0 (Ny wave_sim_c - 1) = Some (0.5 * (a + b))))"
proof -
  have h1: "valid_state wave_sim_c (initial_state wave_sim_c)"
    by (simp_all add: valid_wave_sim_c source_wave_sim_c)
  have h2: "source_inside wave_sim_c"
    by (simp_all add: valid_wave_sim_c source_wave_sim_c)
  note r = corner_nodes_average [OF h1 h2, where n = 0]
  show ?thesis
    by (rule conjI [OF h1 conjI [OF h2 r]])
qed

section \<open>Which arrays an iteration writes, and the exchange of the pointers\<close>

lemma only_next_keeps_levels:
  assumes v: "valid_state P s" and o: "only_next s t"
  shows "keeps_levels s t"
proof -
  from v have "Un0 s \<noteq> Un_p1 s" "Un_m1 s \<noteq> Un_p1 s" by (auto simp: valid_state_def)
  with o show ?thesis by (auto simp: keeps_levels_def only_next_def unchanged_but_def)
qed

lemma keeps_levels_terminal:
  "keeps_levels s t \<Longrightarrow> keeps_levels s (t\<lparr>terminal := tm\<rparr>)"
  by (simp add: keeps_levels_def)

lemma valid_only_next_dom:
  assumes v: "valid_state P s" and v': "valid_state P t" and o: "only_next s t"
  shows "dom (mem t) = dom (mem s)"
proof (rule set_eqI)
  fix q
  show "q \<in> dom (mem t) \<longleftrightarrow> q \<in> dom (mem s)"
  proof (cases "q = Un_p1 s")
    case True
    from v v' o have "allocated P (mem s) (Un_p1 s)" "allocated P (mem t) (Un_p1 s)"
      by (auto simp: valid_state_def only_next_def)
    then show ?thesis using True by (auto simp: allocated_def split: option.splits)
  next
    case False
    with o have "mem t q = mem s q" by (auto simp: only_next_def unchanged_but_def)
    then show ?thesis by (simp add: dom_def)
  qed
qed

lemma writes_only_next: "writes P s t D f \<Longrightarrow> only_next s t"
  by (simp add: writes_def)

text \<open>
  Claim C10. In one iteration the interior pass, the source pass, the edge loops, the
  corner assignments and the printing leave the three pointers in place and do not change
  the arrays of the current and of the previous level: of all arrays only the one at
  \<^verbatim>\<open>Un_p1\<close> is written, until the pointers are exchanged.
\<close>

theorem passes_write_next_only:
  assumes "valid_state P s" and "source_inside P"
  shows "\<exists>s1 s2 s3 s4 s5.
           interior_pass P s = Some s1 \<and> source_node P n s1 = Some s2 \<and>
           boundary_edges P s2 = Some s3 \<and> corner_nodes P s3 = Some s4 \<and>
           printWave s4 (Un_p1 s4) (Nx P) (Ny P) = Some s5 \<and>
           time_step P n s = Some (swap_references s5) \<and>
           keeps_levels s s1 \<and> keeps_levels s s2 \<and> keeps_levels s s3 \<and>
           keeps_levels s s4 \<and> keeps_levels s s5"
proof -
  note v = assms(1) and src = assms(2)
  note n = source_inside_dims[OF src]
  note g = source_inside_in_grid[OF src]
  from n have n3: "3 \<le> Nx P" "3 \<le> Ny P" by auto
  from compute_next_chain[OF v n3 g, of n]
  obtain s1 s2 s3 s4 where p: "interior_pass P s = Some s1" "source_node P n s1 = Some s2"
      "boundary_edges P s2 = Some s3" "corner_nodes P s3 = Some s4"
      "compute_next P n s = Some s4"
    and w: "writes P s s1 (interior P) (stencil P s)"
      "writes P s1 s2 (\<lambda>a b. a = xs1 P \<and> b = ys1 P) (\<lambda>a b. source P n)"
      "writes P s2 s3 (on_edge P) (boundary_value P s2)"
      "writes P s3 s4 (corner P) (corner_value P s3)"
    by blast
  from time_step_chain[OF v n3 g, of n] p(5)
  obtain frame where
    pw: "printWave s4 (Un_p1 s4) (Nx P) (Ny P) = Some (s4\<lparr>terminal := terminal s4 @ [frame]\<rparr>)"
    and t: "time_step P n s =
      Some (swap_references (s4\<lparr>terminal := terminal s4 @ [frame]\<rparr>))"
    by auto
  note o = w[THEN writes_only_next]
  have o1: "only_next s s1" by (rule o(1))
  have o2: "only_next s s2" by (rule only_next_trans[OF o1 o(2)])
  have o3: "only_next s s3" by (rule only_next_trans[OF o2 o(3)])
  have o4: "only_next s s4" by (rule only_next_trans[OF o3 o(4)])
  note k = o1 o2 o3 o4
  note k = k[THEN only_next_keeps_levels[OF v]]
  from p(1-4) pw t k keeps_levels_terminal[OF k(4), of "terminal s4 @ [frame]"]
  show ?thesis
    by (intro exI[of _ s1] exI[of _ s2] exI[of _ s3] exI[of _ s4]
        exI[of _ "s4\<lparr>terminal := terminal s4 @ [frame]\<rparr>"]) (intro conjI)
qed

theorem passes_write_next_only_witness:
  "(valid_state wave_sim_c (initial_state wave_sim_c)) \<and>
   (source_inside wave_sim_c) \<and>
   (\<exists>s1 s2 s3 s4 s5.
           interior_pass wave_sim_c (initial_state wave_sim_c) = Some s1 \<and> source_node wave_sim_c (0::int) s1 = Some s2 \<and>
           boundary_edges wave_sim_c s2 = Some s3 \<and> corner_nodes wave_sim_c s3 = Some s4 \<and>
           printWave s4 (Un_p1 s4) (Nx wave_sim_c) (Ny wave_sim_c) = Some s5 \<and>
           time_step wave_sim_c (0::int) (initial_state wave_sim_c) = Some (swap_references s5) \<and>
           keeps_levels (initial_state wave_sim_c) s1 \<and> keeps_levels (initial_state wave_sim_c) s2 \<and> keeps_levels (initial_state wave_sim_c) s3 \<and>
           keeps_levels (initial_state wave_sim_c) s4 \<and> keeps_levels (initial_state wave_sim_c) s5)"
proof -
  have h1: "valid_state wave_sim_c (initial_state wave_sim_c)"
    by (simp_all add: valid_wave_sim_c source_wave_sim_c)
  have h2: "source_inside wave_sim_c"
    by (simp_all add: valid_wave_sim_c source_wave_sim_c)
  note r = passes_write_next_only [OF h1 h2, where n = 0]
  show ?thesis
    by (rule conjI [OF h1 conjI [OF h2 r]])
qed


lemma time_step_ptrs:
  assumes v: "valid_state P s" and n: "3 \<le> Nx P" "3 \<le> Ny P"
    and src: "in_grid P (xs1 P) (ys1 P)"
  shows "\<exists>s'. time_step P n s = Some s' \<and> valid_state P s' \<and>
           Un_p1 s' = Un_m1 s \<and> Un0 s' = Un_p1 s \<and> Un_m1 s' = Un0 s \<and>
           dom (mem s') = dom (mem s) \<and> length (terminal s') = length (terminal s) + 1"
proof -
  from time_step_chain[OF v n src, of n]
  obtain s1 frame where c: "valid_state P s1" "only_next s s1"
    and t: "time_step P n s =
      Some (swap_references (s1\<lparr>terminal := terminal s1 @ [frame]\<rparr>))"
    by blast
  let ?s' = "swap_references (s1\<lparr>terminal := terminal s1 @ [frame]\<rparr>)"
  have "valid_state P ?s'" by (rule valid_state_swap[OF c(1)])
  moreover have "Un_p1 ?s' = Un_m1 s \<and> Un0 ?s' = Un_p1 s \<and> Un_m1 ?s' = Un0 s"
    using c(2) by (simp add: only_next_def)
  moreover have "dom (mem ?s') = dom (mem s)"
    using valid_only_next_dom[OF v c] by simp
  moreover have "length (terminal ?s') = length (terminal s) + 1"
    using c(2) by (simp add: only_next_def)
  ultimately show ?thesis using t by simp
qed

lemma time_marching_ptrs:
  assumes v: "valid_state P s" and n: "3 \<le> Nx P" "3 \<le> Ny P"
    and src: "in_grid P (xs1 P) (ys1 P)"
  shows "\<exists>t. time_marching P s = Some t \<and> valid_state P t \<and>
           set [Un_p1 t, Un0 t, Un_m1 t] = set [Un_p1 s, Un0 s, Un_m1 s] \<and>
           dom (mem t) = dom (mem s) \<and>
           int (length (terminal t)) = int (length (terminal s)) + max 0 (n_stop P)"
proof -
  let ?I = "\<lambda>k t. valid_state P t \<and>
           set [Un_p1 t, Un0 t, Un_m1 t] = set [Un_p1 s, Un0 s, Un_m1 s] \<and>
           dom (mem t) = dom (mem s) \<and>
           int (length (terminal t)) = int (length (terminal s)) + k"
  have "\<exists>t. for_loop 0 (n_stop P) (time_step P) s = Some t \<and> ?I (max 0 (n_stop P)) t"
  proof (rule for_loop_rule[where I = ?I])
    show "?I 0 s" using v by simp
  next
    fix k t assume "0 \<le> k" "k < n_stop P" and I: "?I k t"
    from I have vt: "valid_state P t" by simp
    from time_step_ptrs[OF vt n src, of k] obtain t' where t': "time_step P k t = Some t'"
      "valid_state P t'" "Un_p1 t' = Un_m1 t" "Un0 t' = Un_p1 t" "Un_m1 t' = Un0 t"
      "dom (mem t') = dom (mem t)" "length (terminal t') = length (terminal t) + 1"
      by blast
    have "set [Un_p1 t', Un0 t', Un_m1 t'] = set [Un_p1 t, Un0 t, Un_m1 t]"
      using t'(3-5) by auto
    with I t' show "\<exists>t'. time_step P k t = Some t' \<and> ?I (k + 1) t'" by simp
  qed
  then show ?thesis by (simp add: time_marching_def)
qed

text \<open>
  Claim C5. The exchange of the pointers that ends an iteration only relabels: the array
  that was the previous level becomes the target of the next iteration, the current level
  becomes the previous one and the next level the current one, and no array is copied or
  changed. So the current level of an iteration is the array that was the next level of the
  iteration before, and however many iterations the time loop runs, it works on the same
  three distinct arrays.
\<close>

theorem swap_references_relabels:
  assumes "valid_state P s" and "source_inside P"
  shows "(\<forall>u. mem (swap_references u) = mem u \<and> Un_p1 (swap_references u) = Un_m1 u \<and>
              Un0 (swap_references u) = Un_p1 u \<and> Un_m1 (swap_references u) = Un0 u) \<and>
         (\<exists>s'. time_step P n s = Some s' \<and>
              Un_p1 s' = Un_m1 s \<and> Un0 s' = Un_p1 s \<and> Un_m1 s' = Un0 s \<and>
              dom (mem s') = dom (mem s) \<and> valid_state P s') \<and>
         (\<exists>t. time_marching P s = Some t \<and>
              set [Un_p1 t, Un0 t, Un_m1 t] = set [Un_p1 s, Un0 s, Un_m1 s] \<and>
              card (set [Un_p1 t, Un0 t, Un_m1 t]) = 3 \<and>
              dom (mem t) = dom (mem s) \<and> valid_state P t)"
proof -
  note v = assms(1) and src = assms(2)
  note n = source_inside_dims[OF src]
  note g = source_inside_in_grid[OF src]
  from n have n3: "3 \<le> Nx P" "3 \<le> Ny P" by auto
  have a: "\<forall>u. mem (swap_references u) = mem u \<and> Un_p1 (swap_references u) = Un_m1 u \<and>
              Un0 (swap_references u) = Un_p1 u \<and> Un_m1 (swap_references u) = Un0 u"
    by simp
  have b: "\<exists>s'. time_step P n s = Some s' \<and>
              Un_p1 s' = Un_m1 s \<and> Un0 s' = Un_p1 s \<and> Un_m1 s' = Un0 s \<and>
              dom (mem s') = dom (mem s) \<and> valid_state P s'"
    using time_step_ptrs[OF v n3 g, of n] by blast
  from time_marching_ptrs[OF v n3 g] obtain t where t: "time_marching P s = Some t"
    "valid_state P t" "set [Un_p1 t, Un0 t, Un_m1 t] = set [Un_p1 s, Un0 s, Un_m1 s]"
    "dom (mem t) = dom (mem s)" by blast
  from t(2) have "distinct [Un_p1 t, Un0 t, Un_m1 t]" by (simp add: valid_state_def)
  then have "card (set [Un_p1 t, Un0 t, Un_m1 t]) = 3"
    by (simp only: distinct_card) simp
  with t have c: "\<exists>t. time_marching P s = Some t \<and>
              set [Un_p1 t, Un0 t, Un_m1 t] = set [Un_p1 s, Un0 s, Un_m1 s] \<and>
              card (set [Un_p1 t, Un0 t, Un_m1 t]) = 3 \<and>
              dom (mem t) = dom (mem s) \<and> valid_state P t"
    by blast
  from a b c show ?thesis by (intro conjI)
qed

theorem swap_references_relabels_witness:
  "(valid_state wave_sim_c (initial_state wave_sim_c)) \<and>
   (source_inside wave_sim_c) \<and>
   ((\<forall>u. mem (swap_references u) = mem u \<and> Un_p1 (swap_references u) = Un_m1 u \<and>
              Un0 (swap_references u) = Un_p1 u \<and> Un_m1 (swap_references u) = Un0 u) \<and>
         (\<exists>s'. time_step wave_sim_c (0::int) (initial_state wave_sim_c) = Some s' \<and>
              Un_p1 s' = Un_m1 (initial_state wave_sim_c) \<and> Un0 s' = Un_p1 (initial_state wave_sim_c) \<and> Un_m1 s' = Un0 (initial_state wave_sim_c) \<and>
              dom (mem s') = dom (mem (initial_state wave_sim_c)) \<and> valid_state wave_sim_c s') \<and>
         (\<exists>t. time_marching wave_sim_c (initial_state wave_sim_c) = Some t \<and>
              set [Un_p1 t, Un0 t, Un_m1 t] = set [Un_p1 (initial_state wave_sim_c), Un0 (initial_state wave_sim_c), Un_m1 (initial_state wave_sim_c)] \<and>
              card (set [Un_p1 t, Un0 t, Un_m1 t]) = 3 \<and>
              dom (mem t) = dom (mem (initial_state wave_sim_c)) \<and> valid_state wave_sim_c t))"
proof -
  have h1: "valid_state wave_sim_c (initial_state wave_sim_c)"
    by (simp_all add: valid_wave_sim_c source_wave_sim_c)
  have h2: "source_inside wave_sim_c"
    by (simp_all add: valid_wave_sim_c source_wave_sim_c)
  note r = swap_references_relabels [OF h1 h2, where n = 0]
  show ?thesis
    by (rule conjI [OF h1 conjI [OF h2 r]])
qed

section \<open>One iteration as a relation between levels\<close>

lemma grid_cases:
  assumes "3 \<le> Nx P" "3 \<le> Ny P" "in_grid P a b"
  shows "interior P a b \<or> on_edge P a b \<or> corner P a b"
proof -
  from assms(3) have r: "0 \<le> a" "a \<le> Nx P - 1" "0 \<le> b" "b \<le> Ny P - 1"
    by (simp_all add: in_grid_def)
  show ?thesis
  proof (cases "a = 0 \<or> a = Nx P - 1")
    case ax: True
    show ?thesis
    proof (cases "b = 0 \<or> b = Ny P - 1")
      case True
      with ax show ?thesis by (simp add: corner_def)
    next
      case False
      with r have "1 \<le> b" "b \<le> Ny P - 2" by linarith+
      with ax have "left_edge P a b \<or> right_edge P a b"
        by (simp add: left_edge_def right_edge_def)
      then have "on_edge P a b" by (auto simp: on_edge_def)
      then show ?thesis by simp
    qed
  next
    case False
    with r have ai: "1 \<le> a" "a \<le> Nx P - 2" by linarith+
    show ?thesis
    proof (cases "b = 0 \<or> b = Ny P - 1")
      case True
      with ai have "top_edge P a b \<or> bottom_edge P a b"
        by (auto simp: top_edge_def bottom_edge_def)
      then have "on_edge P a b" by (auto simp: on_edge_def)
      then show ?thesis by simp
    next
      case False
      with r have "1 \<le> b" "b \<le> Ny P - 2" by linarith+
      with ai show ?thesis by (simp add: interior_def)
    qed
  qed
qed

lemma time_step_next_level:
  assumes v: "valid_state P s" and src: "source_inside P"
  shows "\<exists>s'. time_step P n s = Some s' \<and> valid_state P s' \<and>
           Un_p1 s' = Un_m1 s \<and> Un0 s' = Un_p1 s \<and> Un_m1 s' = Un0 s \<and>
           mem s' (Un_m1 s') = mem s (Un0 s) \<and> mem s' (Un_p1 s') = mem s (Un_m1 s) \<and>
           rd s' (Un_m1 s') = rd s (Un0 s) \<and>
           next_level P n (rd s (Un0 s)) (rd s (Un_m1 s)) (rd s' (Un0 s'))"
proof -
  note n = source_inside_dims[OF src]
  note g = source_inside_in_grid[OF src]
  from n have n3: "3 \<le> Nx P" "3 \<le> Ny P" by auto
  from compute_next_chain[OF v n3 g, of n]
  obtain s1 s2 s3 s4 where p: "compute_next P n s = Some s4"
    and w: "writes P s s1 (interior P) (stencil P s)"
      "writes P s1 s2 (\<lambda>a b. a = xs1 P \<and> b = ys1 P) (\<lambda>a b. source P n)"
      "writes P s2 s3 (on_edge P) (boundary_value P s2)"
      "writes P s3 s4 (corner P) (corner_value P s3)"
    by blast
  from time_step_chain[OF v n3 g, of n] p
  obtain frame where t: "time_step P n s =
      Some (swap_references (s4\<lparr>terminal := terminal s4 @ [frame]\<rparr>))"
    by auto
  let ?s' = "swap_references (s4\<lparr>terminal := terminal s4 @ [frame]\<rparr>)"
  define nx where "nx = Un_p1 s"
  have ptr: "Un_p1 s1 = nx" "Un_p1 s2 = nx" "Un_p1 s3 = nx" "Un_p1 s4 = nx"
    "Un0 s1 = Un0 s" "Un0 s2 = Un0 s" "Un0 s3 = Un0 s" "Un0 s4 = Un0 s"
    "Un_m1 s4 = Un_m1 s"
    using w[THEN writes_ptrs(1)] w[THEN writes_ptrs(2)] w[THEN writes_ptrs(3)]
    by (simp_all add: nx_def)
  note o = w[THEN writes_only_next]
  have o2: "only_next s s2" by (rule only_next_trans[OF o(1) o(2)])
  have o4: "only_next s s4"
    by (rule only_next_trans[OF only_next_trans[OF o2 o(3)] o(4)])
  have ne: "Un0 s \<noteq> Un_p1 s" "Un_m1 s \<noteq> Un_p1 s" using v by (auto simp: valid_state_def)
  have cur2: "rd s2 (Un0 s) = rd s (Un0 s)"
    by (intro ext) (rule only_next_rd[OF o2 ne(1)])
  have k4: "keeps_levels s s4"
    by (rule only_next_keeps_levels[OF v o4])
  have r1: "rd s1 nx a b = (if interior P a b then stencil P s a b else rd s nx a b)" for a b
    using writes_rd_next[OF w(1), of a b] by (simp add: nx_def)
  have r2: "rd s2 nx a b = (if a = xs1 P \<and> b = ys1 P then source P n else rd s1 nx a b)" for a b
    using writes_rd_next[OF w(2), of a b] by (simp add: ptr)
  have r3: "rd s3 nx a b = (if on_edge P a b then boundary_value P s2 a b else rd s2 nx a b)"
    for a b
    using writes_rd_next[OF w(3), of a b] by (simp add: ptr)
  have r4: "rd s4 nx a b = (if corner P a b then corner_value P s3 a b else rd s3 nx a b)"
    for a b
    using writes_rd_next[OF w(4), of a b] by (simp add: ptr)
  have new: "rd ?s' (Un0 ?s') = rd s4 nx"
    by (intro ext) (simp add: rd_def ptr)
  have int4: "rd s4 nx a b = (if a = xs1 P \<and> b = ys1 P then source P n else stencil P s a b)"
    if "interior P a b" for a b
    using that interior_not_corner[OF that] interior_not_on_edge[OF that]
    by (simp add: r4 r3 r2 r1)
  have int2: "rd s2 nx a b = rd s4 nx a b" if "interior P a b" for a b
    using that interior_not_corner[OF that] interior_not_on_edge[OF that]
    by (simp add: r4 r3)
  have edge4: "rd s4 nx a b = boundary_value P s2 a b" if "on_edge P a b" for a b
    using that on_edge_not_corner[OF that] by (simp add: r4 r3)
  have edge3: "rd s3 nx a b = rd s4 nx a b" if "on_edge P a b" for a b
    using that on_edge_not_corner[OF that] by (simp add: r4)
  have A: "\<forall>a b. interior P a b \<longrightarrow>
        rd s4 nx a b =
          (if a = xs1 P \<and> b = ys1 P then source P n
           else 2 * rd s (Un0 s) a b
                  + Ox P * Ox P * (rd s (Un0 s) (a + 1) b - 2 * rd s (Un0 s) a b
                      + rd s (Un0 s) (a - 1) b)
                  + Oy P * Oy P * (rd s (Un0 s) a (b + 1) - 2 * rd s (Un0 s) a b
                      + rd s (Un0 s) a (b - 1))
                  - rd s (Un_m1 s) a b)"
    using int4 by (simp add: stencil_def)
  have B: "\<forall>b. 1 \<le> b \<and> b \<le> Ny P - 2 \<longrightarrow>
        rd s4 nx 0 b = rd s (Un0 s) 1 b + Rx P * (rd s4 nx 1 b - rd s (Un0 s) 0 b) \<and>
        rd s4 nx (Nx P - 1) b = rd s (Un0 s) (Nx P - 2) b
          + Rx P * (rd s4 nx (Nx P - 2) b - rd s (Un0 s) (Nx P - 1) b)"
  proof (intro allI impI)
    fix b assume b: "1 \<le> b \<and> b \<le> Ny P - 2"
    then have e: "left_edge P 0 b" "right_edge P (Nx P - 1) b" "\<not> left_edge P (Nx P - 1) b"
      and i: "interior P 1 b" "interior P (Nx P - 2) b"
      using n3 by (auto simp: left_edge_def right_edge_def interior_def)
    from e have oe: "on_edge P 0 b" "on_edge P (Nx P - 1) b" by (auto simp: on_edge_def)
    show "rd s4 nx 0 b = rd s (Un0 s) 1 b + Rx P * (rd s4 nx 1 b - rd s (Un0 s) 0 b) \<and>
        rd s4 nx (Nx P - 1) b = rd s (Un0 s) (Nx P - 2) b
          + Rx P * (rd s4 nx (Nx P - 2) b - rd s (Un0 s) (Nx P - 1) b)"
      using e by (simp add: edge4[OF oe(1)] edge4[OF oe(2)] boundary_value_def edge_value_def
          ptr cur2 int2[OF i(1)] int2[OF i(2)])
  qed
  have C: "\<forall>a. 1 \<le> a \<and> a \<le> Nx P - 2 \<longrightarrow>
        rd s4 nx a (Ny P - 1) = rd s (Un0 s) a (Ny P - 2)
          + Ry P * (rd s4 nx a (Ny P - 2) - rd s (Un0 s) a (Ny P - 1)) \<and>
        rd s4 nx a 0 = rd s (Un0 s) a 1 + Ry P * (rd s4 nx a 1 - rd s (Un0 s) a 0)"
  proof (intro allI impI)
    fix a assume a: "1 \<le> a \<and> a \<le> Nx P - 2"
    then have e: "top_edge P a (Ny P - 1)" "bottom_edge P a 0"
      "\<not> left_edge P a (Ny P - 1)" "\<not> right_edge P a (Ny P - 1)"
      "\<not> left_edge P a 0" "\<not> right_edge P a 0" "\<not> top_edge P a 0"
      and i: "interior P a 1" "interior P a (Ny P - 2)"
      using n3 by (auto simp: left_edge_def right_edge_def top_edge_def bottom_edge_def
          interior_def)
    from e have oe: "on_edge P a (Ny P - 1)" "on_edge P a 0" by (auto simp: on_edge_def)
    show "rd s4 nx a (Ny P - 1) = rd s (Un0 s) a (Ny P - 2)
          + Ry P * (rd s4 nx a (Ny P - 2) - rd s (Un0 s) a (Ny P - 1)) \<and>
        rd s4 nx a 0 = rd s (Un0 s) a 1 + Ry P * (rd s4 nx a 1 - rd s (Un0 s) a 0)"
      using e by (simp add: edge4[OF oe(1)] edge4[OF oe(2)] boundary_value_def edge_value_def
          ptr cur2 int2[OF i(1)] int2[OF i(2)])
  qed
  have co: "corner P 0 0" "corner P (Nx P - 1) 0" "corner P (Nx P - 1) (Ny P - 1)"
    "corner P 0 (Ny P - 1)"
    by (auto simp: corner_def)
  have oe: "on_edge P 1 0" "on_edge P 0 1" "on_edge P (Nx P - 2) 0" "on_edge P (Nx P - 1) 1"
    "on_edge P (Nx P - 2) (Ny P - 1)" "on_edge P (Nx P - 1) (Ny P - 2)"
    "on_edge P 0 (Ny P - 2)" "on_edge P 1 (Ny P - 1)"
    using n3 by (auto simp: on_edge_def left_edge_def right_edge_def top_edge_def bottom_edge_def)
  have D: "rd s4 nx 0 0 = 5 / 10 * (rd s4 nx 1 0 + rd s4 nx 0 1)"
    "rd s4 nx (Nx P - 1) 0 = 5 / 10 * (rd s4 nx (Nx P - 2) 0 + rd s4 nx (Nx P - 1) 1)"
    "rd s4 nx (Nx P - 1) (Ny P - 1)
       = 5 / 10 * (rd s4 nx (Nx P - 2) (Ny P - 1) + rd s4 nx (Nx P - 1) (Ny P - 2))"
    "rd s4 nx 0 (Ny P - 1) = 5 / 10 * (rd s4 nx 0 (Ny P - 2) + rd s4 nx 1 (Ny P - 1))"
    using n3 co
    by (simp_all add: r4[of 0 0] r4[of "Nx P - 1" 0] r4[of "Nx P - 1" "Ny P - 1"]
        r4[of 0 "Ny P - 1"] corner_value_def ptr edge3[OF oe(1)] edge3[OF oe(2)]
        edge3[OF oe(3)] edge3[OF oe(4)] edge3[OF oe(5)] edge3[OF oe(6)] edge3[OF oe(7)]
        edge3[OF oe(8)])
  have nl: "next_level P n (rd s (Un0 s)) (rd s (Un_m1 s)) (rd s4 nx)"
    unfolding next_level_def using A B C D by (intro conjI)
  have v': "valid_state P ?s'" by (rule valid_state_swap[OF writes_valid[OF w(4)]])
  have m: "mem ?s' (Un_m1 ?s') = mem s (Un0 s)" "mem ?s' (Un_p1 ?s') = mem s (Un_m1 s)"
    using k4 by (simp_all add: keeps_levels_def)
  have prv: "rd ?s' (Un_m1 ?s') = rd s (Un0 s)"
    using m(1) by (intro ext) (simp add: rd_def load_def)
  show ?thesis
    using t v' m prv nl new by (simp add: ptr nx_def)
qed

section \<open>Zero levels\<close>

lemma load_zero_grid:
  assumes "h p = Some (zero_grid P)"
  shows "load h p a b = None \<or> load h p a b = Some 0"
proof (cases "in_bounds (zero_grid P) a b")
  case False
  then show ?thesis using assms by (simp add: load_def)
next
  case True
  then have a: "nat a < nat (Nx P)" by (auto simp: in_bounds_def zero_grid_def split: if_splits)
  then have row: "zero_grid P ! nat a = replicate (nat (Ny P)) 0"
    by (simp add: zero_grid_def)
  from True have "nat b < nat (Ny P)" by (auto simp: in_bounds_def row split: if_splits)
  then have "zero_grid P ! nat a ! nat b = 0" by (simp add: row)
  then show ?thesis using assms True by (simp add: load_def)
qed

lemma rd_zero_grid: "mem s p = Some (zero_grid P) \<Longrightarrow> rd s p a b = 0"
  using load_zero_grid[of "mem s" p P a b] by (auto simp: rd_def)

lemma zero_grid_eqI:
  assumes al: "allocated P h p"
    and z: "\<And>a b. in_grid P a b \<Longrightarrow> load h p a b = Some 0"
  shows "h p = Some (zero_grid P)"
proof -
  from al obtain g where g: "h p = Some g" and ig: "is_grid (Nx P) (Ny P) g"
    by (auto simp: allocated_def split: option.splits)
  from ig have len: "int (length g) = Nx P"
    and rows: "\<And>i. i < length g \<Longrightarrow> int (length (g ! i)) = Ny P"
    by (auto simp: is_grid_def list_all_length)
  have "g = zero_grid P"
  proof (rule nth_equalityI)
    show "length g = length (zero_grid P)" using len by (simp add: zero_grid_def)
  next
    fix i assume i: "i < length g"
    then have i': "i < nat (Nx P)" using len by simp
    have "g ! i = replicate (nat (Ny P)) 0"
    proof (rule nth_equalityI)
      show "length (g ! i) = length (replicate (nat (Ny P)) (0::real))"
        using rows[OF i] by simp
    next
      fix j assume j: "j < length (g ! i)"
      then have j': "j < nat (Ny P)" using rows[OF i] by simp
      have "in_grid P (int i) (int j)" using i' j' by (auto simp: in_grid_def)
      from z[OF this] have "g ! i ! j = 0"
        using g by (simp add: load_def split: if_splits)
      then show "g ! i ! j = replicate (nat (Ny P)) 0 ! j" using j' by simp
    qed
    then show "g ! i = zero_grid P ! i" using i' by (simp add: zero_grid_def)
  qed
  with g show ?thesis by simp
qed

lemma source_silent: "amplitude P = 0 \<Longrightarrow> source P n = 0"
  by (simp add: source_def)

lemma source_at_0: "source P 0 = 0"
  by (simp add: source_def)

lemma next_level_zero:
  assumes nl: "next_level P n (\<lambda>a b. 0) (\<lambda>a b. 0) new"
    and n: "3 \<le> Nx P" "3 \<le> Ny P" and src: "source P n = 0" and g: "in_grid P a b"
  shows "new a b = 0"
proof -
  have I: "new x y = 0" if "interior P x y" for x y
    using nl that src by (simp add: next_level_def)
  have L: "new 0 y = 0" "new (Nx P - 1) y = 0" if "1 \<le> y" "y \<le> Ny P - 2" for y
  proof -
    have "interior P 1 y" "interior P (Nx P - 2) y" using that n by (simp_all add: interior_def)
    then have "new 1 y = 0" "new (Nx P - 2) y = 0" by (simp_all add: I)
    moreover from nl that have "new 0 y = 0 + Rx P * (new 1 y - 0)"
      "new (Nx P - 1) y = 0 + Rx P * (new (Nx P - 2) y - 0)"
      by (simp_all add: next_level_def)
    ultimately show "new 0 y = 0" "new (Nx P - 1) y = 0" by simp_all
  qed
  have T: "new x (Ny P - 1) = 0" "new x 0 = 0" if "1 \<le> x" "x \<le> Nx P - 2" for x
  proof -
    have "interior P x 1" "interior P x (Ny P - 2)" using that n by (simp_all add: interior_def)
    then have "new x 1 = 0" "new x (Ny P - 2) = 0" by (simp_all add: I)
    moreover from nl that have "new x (Ny P - 1) = 0 + Ry P * (new x (Ny P - 2) - 0)"
      "new x 0 = 0 + Ry P * (new x 1 - 0)"
      by (simp_all add: next_level_def)
    ultimately show "new x (Ny P - 1) = 0" "new x 0 = 0" by simp_all
  qed
  have E: "new x y = 0" if "on_edge P x y" for x y
    using that L T
    by (auto simp: on_edge_def left_edge_def right_edge_def top_edge_def bottom_edge_def)
  have C: "new x y = 0" if "corner P x y" for x y
  proof -
    have e: "new 1 0 = 0" "new 0 1 = 0" "new (Nx P - 2) 0 = 0" "new (Nx P - 1) 1 = 0"
      "new (Nx P - 2) (Ny P - 1) = 0" "new (Nx P - 1) (Ny P - 2) = 0"
      "new 0 (Ny P - 2) = 0" "new 1 (Ny P - 1) = 0"
      using n L[of 1] L[of "Ny P - 2"] T[of 1] T[of "Nx P - 2"] by simp_all
    from nl have "new 0 0 = 0" "new (Nx P - 1) 0 = 0" "new (Nx P - 1) (Ny P - 1) = 0"
      "new 0 (Ny P - 1) = 0"
      by (simp_all add: next_level_def e)
    with that show ?thesis by (auto simp: corner_def)
  qed
  from grid_cases[OF n g] I E C show ?thesis by blast
qed

lemma all_zero_levels:
  assumes "all_zero P s"
  shows "rd s (Un0 s) = (\<lambda>a b. 0)" "rd s (Un_m1 s) = (\<lambda>a b. 0)" "rd s (Un_p1 s) = (\<lambda>a b. 0)"
  using assms by (auto simp: all_zero_def rd_zero_grid fun_eq_iff)

lemma time_step_zero:
  assumes v: "valid_state P s" and src: "source_inside P" and z: "all_zero P s"
    and f: "source P n = 0"
  shows "\<exists>s'. time_step P n s = Some s' \<and> valid_state P s' \<and> all_zero P s'"
proof -
  from time_step_next_level[OF v src, of n]
  obtain s' where s': "time_step P n s = Some s'" "valid_state P s'"
    "mem s' (Un_m1 s') = mem s (Un0 s)" "mem s' (Un_p1 s') = mem s (Un_m1 s)"
    "next_level P n (rd s (Un0 s)) (rd s (Un_m1 s)) (rd s' (Un0 s'))"
    by blast
  note n = source_inside_dims[OF src]
  from n have n3: "3 \<le> Nx P" "3 \<le> Ny P" by auto
  from s'(5) have nl: "next_level P n (\<lambda>a b. 0) (\<lambda>a b. 0) (rd s' (Un0 s'))"
    by (simp add: all_zero_levels[OF z])
  have "mem s' (Un0 s') = Some (zero_grid P)"
  proof (rule zero_grid_eqI[OF valid_stateD(2)[OF s'(2)]])
    fix a b assume g: "in_grid P a b"
    from next_level_zero[OF nl n3 f g] load_rd[OF valid_stateD(2)[OF s'(2)] g]
    show "load (mem s') (Un0 s') a b = Some 0" by simp
  qed
  with s'(3,4) z have "all_zero P s'" by (simp add: all_zero_def)
  with s'(1,2) show ?thesis by blast
qed

text \<open>
  Claim C6. With amplitude zero and all three levels zero at every node, all three levels
  are zero at every node after a whole iteration (interior pass, source, edges, corners,
  exchange of the pointers), and after the whole time loop, whatever the number of steps.
\<close>

theorem zero_stays_zero:
  assumes "valid_state P s" and "source_inside P" and "amplitude P = 0" and "all_zero P s"
  shows "(\<exists>s'. time_step P n s = Some s' \<and> all_zero P s') \<and>
         (\<exists>t. first_steps P k s = Some t \<and> all_zero P t) \<and>
         (\<exists>t. time_marching P s = Some t \<and> all_zero P t)"
proof -
  note v = assms(1) and src = assms(2) and z = assms(4)
  have f: "source P m = 0" for m by (rule source_silent[OF assms(3)])
  have A: "\<exists>s'. time_step P n s = Some s' \<and> all_zero P s'"
    using time_step_zero[OF v src z f] by blast
  have L: "\<exists>t. for_loop 0 m (time_step P) s = Some t \<and> valid_state P t \<and> all_zero P t" for m
  proof (rule for_loop_rule[where I = "\<lambda>i t. valid_state P t \<and> all_zero P t"])
    show "valid_state P s \<and> all_zero P s" using v z by simp
  next
    fix i t assume "valid_state P t \<and> all_zero P t"
    then show "\<exists>t'. time_step P i t = Some t' \<and> valid_state P t' \<and> all_zero P t'"
      using time_step_zero[OF _ src _ f, of t i] by blast
  qed
  from L[of k] have B: "\<exists>t. first_steps P k s = Some t \<and> all_zero P t"
    by (auto simp: first_steps_def)
  from L[of "n_stop P"] have C: "\<exists>t. time_marching P s = Some t \<and> all_zero P t"
    by (auto simp: time_marching_def)
  from A B C show ?thesis by (intro conjI)
qed

lemma all_zero_initial: "all_zero P (initial_state P)"
  by (simp add: all_zero_def initial_state_def)

lemma Nx_silent: "Nx silent = 84" and Ny_silent: "Ny silent = 84"
  using Nx_wave_sim_c Ny_wave_sim_c by (simp_all add: silent_def Nx_def Ny_def)

lemma valid_silent: "valid_state silent (initial_state silent)"
  by (rule valid_state_initial) (simp_all add: Nx_silent Ny_silent)

lemma source_silent_inside: "source_inside silent"
  by (simp add: source_inside_def Nx_silent Ny_silent) (simp add: silent_def wave_sim_c_def)

lemma amplitude_silent: "amplitude silent = 0"
  by (simp add: silent_def)

theorem zero_stays_zero_witness:
  "(valid_state silent (initial_state silent)) \<and>
   (source_inside silent) \<and>
   (amplitude silent = 0) \<and>
   (all_zero silent (initial_state silent)) \<and>
   ((\<exists>s'. time_step silent (0::int) (initial_state silent) = Some s' \<and> all_zero silent s') \<and>
         (\<exists>t. first_steps silent (10::int) (initial_state silent) = Some t \<and> all_zero silent t) \<and>
         (\<exists>t. time_marching silent (initial_state silent) = Some t \<and> all_zero silent t))"
proof -
  have h1: "valid_state silent (initial_state silent)"
    by (simp_all add: valid_silent source_silent_inside amplitude_silent all_zero_initial)
  have h2: "source_inside silent"
    by (simp_all add: valid_silent source_silent_inside amplitude_silent all_zero_initial)
  have h3: "amplitude silent = 0"
    by (simp_all add: valid_silent source_silent_inside amplitude_silent all_zero_initial)
  have h4: "all_zero silent (initial_state silent)"
    by (simp_all add: valid_silent source_silent_inside amplitude_silent all_zero_initial)
  note r = zero_stays_zero [OF h1 h2 h3 h4, where n = 0 and k = 10]
  show ?thesis
    by (rule conjI [OF h1 conjI [OF h2 conjI [OF h3 conjI [OF h4 r]]]])
qed

section \<open>The first source pass on a grid of 7 by 7 nodes\<close>

lemma int_of_double_6: "int_of_double 6 = 6"
  by (simp add: int_of_double_def)

lemma Nx_grid7: "Nx grid7 = 7"
proof -
  have "Lx grid7 / dx grid7 = 6" by (simp add: grid7_def wave_sim_c_def)
  then show ?thesis unfolding Nx_def by (simp only: int_of_double_6)
qed

lemma Ny_grid7: "Ny grid7 = 7"
proof -
  have "Ly grid7 / dy grid7 = 6" by (simp add: grid7_def wave_sim_c_def)
  then show ?thesis unfolding Ny_def by (simp only: int_of_double_6)
qed

lemma source_grid7: "xs1 grid7 = 3" "ys1 grid7 = 3"
  by (simp_all add: grid7_def)

lemma valid_grid7: "valid_state grid7 (initial_state grid7)"
  by (rule valid_state_initial) (simp_all add: Nx_grid7 Ny_grid7)

lemma source_inside_grid7: "source_inside grid7"
  by (simp add: source_inside_def Nx_grid7 Ny_grid7 source_grid7)

lemma stencil_zero: "all_zero P s \<Longrightarrow> stencil P s a b = 0"
  by (simp add: stencil_def all_zero_levels)

lemma source_pass_from_zero:
  assumes v: "valid_state P s" and z: "all_zero P s" and g: "in_grid P (xs1 P) (ys1 P)"
  shows "\<exists>s1 s2. interior_pass P s = Some s1 \<and> source_node P n s1 = Some s2 \<and>
           (\<forall>a b. in_grid P a b \<longrightarrow>
              load (mem s2) (Un_p1 s2) a b
                = Some (if a = xs1 P \<and> b = ys1 P then source P n else 0))"
proof -
  from interior_pass_writes[OF v] obtain s1 where s1: "interior_pass P s = Some s1"
    and w1: "writes P s s1 (interior P) (stencil P s)" by blast
  from source_node_writes[OF writes_valid[OF w1] g]
  obtain s2 where s2: "source_node P n s1 = Some s2"
    and w2: "writes P s1 s2 (\<lambda>a b. a = xs1 P \<and> b = ys1 P) (\<lambda>a b. source P n)" by blast
  have r1: "rd s1 (Un_p1 s1) a b = 0" for a b
    using writes_rd_next[OF w1, of a b]
    by (simp add: writes_ptrs[OF w1] stencil_zero[OF z] all_zero_levels[OF z])
  have "load (mem s2) (Un_p1 s2) a b = Some (if a = xs1 P \<and> b = ys1 P then source P n else 0)"
    if "in_grid P a b" for a b
    using writes_load_next[OF w2 that] by (simp add: r1)
  with s1 s2 show ?thesis by blast
qed

text \<open>
  Claim C7 says that on a grid of 7 by 7 nodes with the source at \<open>(3, 3)\<close>, after the
  interior pass and the source pass of step 0 from zero levels, node \<open>(3, 3)\<close> is the
  only nonzero node of the next level. In that configuration and state the node
  \<open>(3, 3)\<close> holds zero as well: the pulse contains the factor \<open>sin 0\<close>.
\<close>

theorem only_nonzero_node_counterexample:
  "Nx grid7 = 7 \<and> Ny grid7 = 7 \<and> xs1 grid7 = 3 \<and> ys1 grid7 = 3 \<and>
   all_zero grid7 (initial_state grid7) \<and>
   Option.bind (Option.bind (interior_pass grid7 (initial_state grid7)) (source_node grid7 0))
     (\<lambda>s2. load (mem s2) (Un_p1 s2) 3 3) = Some 0"
proof -
  from source_pass_from_zero[OF valid_grid7 all_zero_initial
      source_inside_in_grid[OF source_inside_grid7], of 0]
  obtain s1 s2 where s: "interior_pass grid7 (initial_state grid7) = Some s1"
    "source_node grid7 0 s1 = Some s2"
    and l: "\<forall>a b. in_grid grid7 a b \<longrightarrow>
              load (mem s2) (Un_p1 s2) a b
                = Some (if a = xs1 grid7 \<and> b = ys1 grid7 then source grid7 0 else 0)"
    by blast
  have "in_grid grid7 3 3" by (simp add: in_grid_def Nx_grid7 Ny_grid7)
  with l have "load (mem s2) (Un_p1 s2) 3 3 = Some 0"
    by (simp add: source_grid7 source_at_0)
  with s show ?thesis by (simp add: Nx_grid7 Ny_grid7 source_grid7 all_zero_initial)
qed

text \<open>
  Claim C7, amended. On a grid of 7 by 7 nodes with the source at \<open>(3, 3)\<close>, after the
  interior pass and the source pass of step 0 from zero levels, node \<open>(3, 3)\<close> of the next
  level holds the pulse evaluated at \<open>n = 0\<close>, and every node of the next level, the
  node \<open>(3, 3)\<close> among them, is zero: no node other than \<open>(3, 3)\<close> is nonzero, and
  the pulse at \<open>n = 0\<close> is itself zero.
\<close>

theorem first_source_pass_from_zero:
  assumes "valid_state P s" and "all_zero P s"
    and "Nx P = 7" and "Ny P = 7" and "xs1 P = 3" and "ys1 P = 3"
  shows "\<exists>s1 s2. interior_pass P s = Some s1 \<and> source_node P 0 s1 = Some s2 \<and>
           load (mem s2) (Un_p1 s2) 3 3 =
             Some (amplitude P * exp (- (((of_int 0 * dt P - T0 P) / (w P / 2))\<^sup>2))
                   * sin ((2 * pi * of_int (c P) / l P) * (of_int 0 * dt P))) \<and>
           (\<forall>i j. in_grid P i j \<longrightarrow> load (mem s2) (Un_p1 s2) i j = Some 0)"
proof -
  have g: "in_grid P (xs1 P) (ys1 P)" using assms(3-) by (simp add: in_grid_def)
  from source_pass_from_zero[OF assms(1,2) g, of 0]
  obtain s1 s2 where s: "interior_pass P s = Some s1" "source_node P 0 s1 = Some s2"
    and l: "\<forall>a b. in_grid P a b \<longrightarrow>
              load (mem s2) (Un_p1 s2) a b
                = Some (if a = xs1 P \<and> b = ys1 P then source P 0 else 0)"
    by blast
  from l have z: "\<forall>i j. in_grid P i j \<longrightarrow> load (mem s2) (Un_p1 s2) i j = Some 0"
    by (simp add: source_at_0)
  have "in_grid P 3 3" using g assms(5,6) by simp
  with z have "load (mem s2) (Un_p1 s2) 3 3 = Some 0" by simp
  then have "load (mem s2) (Un_p1 s2) 3 3 =
             Some (amplitude P * exp (- (((of_int 0 * dt P - T0 P) / (w P / 2))\<^sup>2))
                   * sin ((2 * pi * of_int (c P) / l P) * (of_int 0 * dt P)))"
    by simp
  with s z show ?thesis by blast
qed

theorem first_source_pass_from_zero_witness:
  "(valid_state grid7 (initial_state grid7)) \<and>
   (all_zero grid7 (initial_state grid7)) \<and>
   (Nx grid7 = 7) \<and>
   (Ny grid7 = 7) \<and>
   (xs1 grid7 = 3) \<and>
   (ys1 grid7 = 3) \<and>
   (\<exists>s1 s2. interior_pass grid7 (initial_state grid7) = Some s1 \<and> source_node grid7 0 s1 = Some s2 \<and>
           load (mem s2) (Un_p1 s2) 3 3 =
             Some (amplitude grid7 * exp (- (((of_int 0 * dt grid7 - T0 grid7) / (w grid7 / 2))\<^sup>2))
                   * sin ((2 * pi * of_int (c grid7) / l grid7) * (of_int 0 * dt grid7))) \<and>
           (\<forall>i j. in_grid grid7 i j \<longrightarrow> load (mem s2) (Un_p1 s2) i j = Some 0))"
proof -
  have h1: "valid_state grid7 (initial_state grid7)"
    by (simp_all add: valid_grid7 all_zero_initial Nx_grid7 Ny_grid7 source_grid7)
  have h2: "all_zero grid7 (initial_state grid7)"
    by (simp_all add: valid_grid7 all_zero_initial Nx_grid7 Ny_grid7 source_grid7)
  have h3: "Nx grid7 = 7"
    by (simp_all add: valid_grid7 all_zero_initial Nx_grid7 Ny_grid7 source_grid7)
  have h4: "Ny grid7 = 7"
    by (simp_all add: valid_grid7 all_zero_initial Nx_grid7 Ny_grid7 source_grid7)
  have h5: "xs1 grid7 = 3"
    by (simp_all add: valid_grid7 all_zero_initial Nx_grid7 Ny_grid7 source_grid7)
  have h6: "ys1 grid7 = 3"
    by (simp_all add: valid_grid7 all_zero_initial Nx_grid7 Ny_grid7 source_grid7)
  note r = first_source_pass_from_zero [OF h1 h2 h3 h4 h5 h6]
  show ?thesis
    by (rule conjI [OF h1 conjI [OF h2 conjI [OF h3 conjI [OF h4 conjI [OF h5 conjI [OF h6 r]]]]]])
qed

section \<open>The whole program\<close>

lemma allocated_allocate:
  "0 \<le> Nx P \<Longrightarrow> 0 \<le> Ny P \<Longrightarrow>
   allocated P (allocate2DArray h a junk (Nx P) (Ny P)) a"
  by (simp add: allocated_def allocate2DArray_def is_grid_def list_all_iff)

lemma allocated_allocate_other:
  "q \<noteq> a \<Longrightarrow> allocated P (allocate2DArray h a junk rows cols) q = allocated P h q"
  by (simp add: allocated_def allocate2DArray_def)

lemma unchanged_but_refl: "unchanged_but p h h"
  by (simp add: unchanged_but_def)

lemma unchanged_but_trans: "unchanged_but p h h' \<Longrightarrow> unchanged_but p h' h'' \<Longrightarrow> unchanged_but p h h''"
  by (auto simp: unchanged_but_def) metis

lemma initializeArray_zero:
  assumes al: "allocated P h p"
  shows "initializeArray h p (Nx P) (Ny P) = Some (h(p \<mapsto> zero_grid P))"
proof -
  let ?J = "\<lambda>i j h'. allocated P h' p \<and> unchanged_but p h h' \<and>
      (\<forall>a b. in_grid P a b \<and> (a < i \<or> a = i \<and> b < j) \<longrightarrow> load h' p a b = Some 0)"
  let ?I = "\<lambda>i h'. allocated P h' p \<and> unchanged_but p h h' \<and>
      (\<forall>a b. in_grid P a b \<and> a < i \<longrightarrow> load h' p a b = Some 0)"
  have inner: "\<exists>h''. for_loop 0 (Ny P) (\<lambda>j h'. store h' p i j 0) h' = Some h'' \<and> ?I (i + 1) h''"
    if i: "0 \<le> i" "i < Nx P" and I: "?I i h'" for i h'
  proof -
    have "\<exists>h''. for_loop 0 (Ny P) (\<lambda>j h'. store h' p i j 0) h' = Some h'' \<and>
        ?J i (max 0 (Ny P)) h''"
    proof (rule for_loop_rule[where I = "?J i"])
      show "?J i 0 h'" using I by (auto simp: in_grid_def)
    next
      fix j t assume j: "0 \<le> j" "j < Ny P" and J: "?J i j t"
      then have g: "in_grid P i j" using i by (simp add: in_grid_def)
      from J have alt: "allocated P t p" by simp
      from load_allocated[OF alt, of i j] g
      obtain t' where t': "store t p i j 0 = Some t'"
        using store_None_iff[of t p i j 0] by (cases "store t p i j 0") (auto simp: in_grid_def)
      have "allocated P t' p" using alt by (simp add: allocated_store[OF t'])
      moreover have "unchanged_but p h t'"
        using J store_other[OF t'] by (blast intro: unchanged_but_trans)
      moreover have "\<forall>a b. in_grid P a b \<and> (a < i \<or> a = i \<and> b < j + 1) \<longrightarrow>
          load t' p a b = Some 0"
        using J by (auto simp: load_store[OF t'])
      ultimately show "\<exists>t'. store t p i j 0 = Some t' \<and> ?J i (j + 1) t'" using t' by blast
    qed
    then obtain h'' where h'': "for_loop 0 (Ny P) (\<lambda>j h'. store h' p i j 0) h' = Some h''"
      "?J i (max 0 (Ny P)) h''" by blast
    have "load h'' p a b = Some 0" if ab: "in_grid P a b \<and> a < i + 1" for a b
    proof -
      from ab have "a < i \<or> a = i \<and> b < max 0 (Ny P)" by (auto simp: in_grid_def)
      with ab h''(2) show ?thesis by blast
    qed
    with h''(2) have "?I (i + 1) h''" by blast
    with h''(1) show ?thesis by blast
  qed
  have "\<exists>h'. for_loop 0 (Nx P) (\<lambda>i. for_loop 0 (Ny P) (\<lambda>j h'. store h' p i j 0)) h = Some h' \<and>
      ?I (max 0 (Nx P)) h'"
  proof (rule for_loop_rule[where I = ?I])
    show "?I 0 h" using al by (auto simp: unchanged_but_refl in_grid_def)
  next
    fix i t assume "0 \<le> i" "i < Nx P" "?I i t"
    from inner[OF this]
    show "\<exists>t'. for_loop 0 (Ny P) (\<lambda>j h'. store h' p i j 0) t = Some t' \<and> ?I (i + 1) t'" .
  qed
  then obtain h' where h': "initializeArray h p (Nx P) (Ny P) = Some h'" "?I (max 0 (Nx P)) h'"
    by (auto simp: initializeArray_def)
  have "h' p = Some (zero_grid P)"
    by (rule zero_grid_eqI) (use h'(2) in \<open>auto simp: in_grid_def\<close>)
  moreover have "h' q = h q" if "q \<noteq> p" for q
    using h'(2) that by (auto simp: unchanged_but_def)
  ultimately have "h' = h(p \<mapsto> zero_grid P)" by (auto simp: fun_eq_iff)
  with h'(1) show ?thesis by simp
qed

lemma startup_initial:
  assumes n: "0 \<le> Nx P" "0 \<le> Ny P"
  shows "startup junk P = Some (initial_state P)"
proof -
  define h1 where "h1 = allocate2DArray Map.empty 0 junk (Nx P) (Ny P)"
  define h2 where "h2 = allocate2DArray h1 1 junk (Nx P) (Ny P)"
  define h3 where "h3 = allocate2DArray h2 2 junk (Nx P) (Ny P)"
  have a3: "allocated P h3 0" "allocated P h3 1" "allocated P h3 2"
    using allocated_allocate[OF n, of Map.empty 0 junk]
      allocated_allocate[OF n, of h1 1 junk] allocated_allocate[OF n, of h2 2 junk]
    by (simp_all add: h1_def h2_def h3_def allocated_allocate_other)
  have i1: "initializeArray h3 0 (Nx P) (Ny P) = Some (h3(0 \<mapsto> zero_grid P))"
    by (rule initializeArray_zero[OF a3(1)])
  have a4: "allocated P (h3(0 \<mapsto> zero_grid P)) 1" using a3(2) by (simp add: allocated_def)
  have i2: "initializeArray (h3(0 \<mapsto> zero_grid P)) 1 (Nx P) (Ny P)
      = Some (h3(0 \<mapsto> zero_grid P, 1 \<mapsto> zero_grid P))"
    by (rule initializeArray_zero[OF a4])
  have a5: "allocated P (h3(0 \<mapsto> zero_grid P, 1 \<mapsto> zero_grid P)) 2"
    using a3(3) by (simp add: allocated_def)
  have i3: "initializeArray (h3(0 \<mapsto> zero_grid P, 1 \<mapsto> zero_grid P)) 2 (Nx P) (Ny P)
      = Some (h3(0 \<mapsto> zero_grid P, 1 \<mapsto> zero_grid P, 2 \<mapsto> zero_grid P))"
    by (rule initializeArray_zero[OF a5])
  have e: "h3(0 \<mapsto> zero_grid P, 1 \<mapsto> zero_grid P, 2 \<mapsto> zero_grid P)
      = Map.empty(0 \<mapsto> zero_grid P, 1 \<mapsto> zero_grid P, 2 \<mapsto> zero_grid P)"
    by (auto simp: fun_eq_iff h1_def h2_def h3_def allocate2DArray_def)
  show ?thesis
    by (simp only: startup_def Let_def h1_def[symmetric] h2_def[symmetric] h3_def[symmetric]
        i1 i2 i3 e initial_state_def Option.bind.simps)
qed

lemma main_returns:
  assumes n: "3 \<le> Nx P" "3 \<le> Ny P" and src: "in_grid P (xs1 P) (ys1 P)"
  shows "\<exists>s. main junk P = Some (0, s) \<and> int (length (terminal s)) = max 0 (n_stop P)"
proof -
  from n have n0: "0 \<le> Nx P" "0 \<le> Ny P" by auto
  note st = startup_initial[OF n0, of junk]
  from time_marching_ptrs[OF valid_state_initial[OF n0] n src]
  obtain t where t: "time_marching P (initial_state P) = Some t" "valid_state P t"
    "int (length (terminal t)) = int (length (terminal (initial_state P))) + max 0 (n_stop P)"
    by blast
  from t(2) obtain g1 g2 g3 where g: "mem t (Un_p1 t) = Some g1" "int (length g1) = Nx P"
    "mem t (Un0 t) = Some g2" "int (length g2) = Nx P"
    "mem t (Un_m1 t) = Some g3" "int (length g3) = Nx P"
    and d: "Un0 t \<noteq> Un_p1 t" "Un_m1 t \<noteq> Un_p1 t" "Un_m1 t \<noteq> Un0 t"
    by (auto simp: valid_state_def allocated_def is_grid_def split: option.splits)
  let ?h1 = "(mem t)(Un_p1 t := None)"
  let ?h2 = "?h1(Un0 t := None)"
  let ?h3 = "?h2(Un_m1 t := None)"
  have f1: "free2DArray (mem t) (Un_p1 t) (Nx P) = Some ?h1"
    using g by (simp add: free2DArray_def)
  have f2: "free2DArray ?h1 (Un0 t) (Nx P) = Some ?h2"
    using g d by (simp add: free2DArray_def)
  have f3: "free2DArray ?h2 (Un_m1 t) (Nx P) = Some ?h3"
    using g d by (simp add: free2DArray_def)
  have "main junk P = Some (0, t\<lparr>mem := ?h3\<rparr>)"
    by (simp add: main_def st t(1) f1 f2 f3)
  moreover have "int (length (terminal (t\<lparr>mem := ?h3\<rparr>))) = max 0 (n_stop P)"
    using t(3) by (simp add: initial_state_def)
  ultimately show ?thesis by blast
qed

lemma Nx_source_on_edge: "Nx source_on_edge = 84" and Ny_source_on_edge: "Ny source_on_edge = 84"
  using Nx_wave_sim_c Ny_wave_sim_c by (simp_all add: source_on_edge_def Nx_def Ny_def)

lemma source_on_edge_fields:
  "xs1 source_on_edge = 0" "ys1 source_on_edge = 50" "n_stop source_on_edge = 150"
  by (simp_all add: source_on_edge_def wave_sim_c_def)

lemma Nx_negative_x: "Nx negative_x = 84"
proof -
  have "Lx negative_x / dx negative_x = 250 / 3" by (simp add: negative_x_def)
  then show ?thesis unfolding Nx_def by (simp only: int_of_double_250_3)
qed

lemma Ny_negative_x: "Ny negative_x = 84"
  using Ny_wave_sim_c by (simp add: negative_x_def Ny_def)

text \<open>
  Claim C8 says that a configuration with the source outside the strict interior, or with
  a non-positive spacing or domain size, is rejected before the first iteration. The
  program has no such check: with the source on the left edge, and with a negative
  length and spacing, \<^verbatim>\<open>main\<close> prints all 150 frames and returns 0.
\<close>

theorem no_rejection_counterexample:
  "\<not> source_inside source_on_edge \<and>
   map_option (\<lambda>(r, s). (r, length (terminal s))) (main 0 source_on_edge) = Some (0, 150) \<and>
   dx negative_x < 0 \<and> Lx negative_x < 0 \<and>
   map_option (\<lambda>(r, s). (r, length (terminal s))) (main 0 negative_x) = Some (0, 150)"
proof -
  have "in_grid source_on_edge (xs1 source_on_edge) (ys1 source_on_edge)"
    by (simp add: in_grid_def Nx_source_on_edge Ny_source_on_edge)
      (simp add: source_on_edge_def wave_sim_c_def)
  from main_returns[of source_on_edge 0, OF _ _ this]
  obtain s where s: "main 0 source_on_edge = Some (0, s)"
    "int (length (terminal s)) = max 0 (n_stop source_on_edge)"
    by (auto simp: Nx_source_on_edge Ny_source_on_edge)
  have "n_stop source_on_edge = 150" by (simp add: source_on_edge_def wave_sim_c_def)
  with s have A: "map_option (\<lambda>(r, s). (r, length (terminal s))) (main 0 source_on_edge)
      = Some (0, 150)"
    by simp
  have "in_grid negative_x (xs1 negative_x) (ys1 negative_x)"
    by (simp add: in_grid_def Nx_negative_x Ny_negative_x)
      (simp add: negative_x_def wave_sim_c_def)
  from main_returns[of negative_x 0, OF _ _ this]
  obtain t where t: "main 0 negative_x = Some (0, t)"
    "int (length (terminal t)) = max 0 (n_stop negative_x)"
    by (auto simp: Nx_negative_x Ny_negative_x)
  have "n_stop negative_x = 150" by (simp add: negative_x_def wave_sim_c_def)
  with t have B: "map_option (\<lambda>(r, s). (r, length (terminal s))) (main 0 negative_x)
      = Some (0, 150)"
    by simp
  have C: "\<not> source_inside source_on_edge"
    by (simp add: source_inside_def source_on_edge_def)
  have D: "dx negative_x < 0" "Lx negative_x < 0" by (simp_all add: negative_x_def)
  from A B C D show ?thesis by (intro conjI)
qed

text \<open>
  Every state at the head of an iteration of the time loop is valid: the state in which
  \<^verbatim>\<open>main\<close> enters the loop is, and an iteration keeps it so.
\<close>

lemma time_marching_first_steps: "time_marching P s = first_steps P (n_stop P) s"
  by (simp add: time_marching_def first_steps_def)

lemma first_steps_valid:
  assumes v: "valid_state P s" and n: "3 \<le> Nx P" "3 \<le> Ny P"
    and src: "in_grid P (xs1 P) (ys1 P)"
  shows "\<exists>t. first_steps P k s = Some t \<and> valid_state P t"
  unfolding first_steps_def
proof -
  have "\<exists>t. for_loop 0 k (time_step P) s = Some t \<and> valid_state P t"
  proof (rule for_loop_rule[where I = "\<lambda>i t. valid_state P t"])
    show "valid_state P s" by (rule v)
  next
    fix i t assume "valid_state P t"
    from time_step_ptrs[OF this n src, of i]
    show "\<exists>t'. time_step P i t = Some t' \<and> valid_state P t'" by blast
  qed
  then show "\<exists>t. for_loop 0 k (time_step P) s = Some t \<and> valid_state P t" .
qed

lemma startup_valid:
  "0 \<le> Nx P \<Longrightarrow> 0 \<le> Ny P \<Longrightarrow> \<exists>s. startup junk P = Some s \<and> valid_state P s \<and> all_zero P s"
  by (simp add: startup_initial valid_state_initial all_zero_initial)

lemma load_zero_grid_in:
  assumes m: "mem s p = Some (zero_grid P)" and n: "0 \<le> Nx P" "0 \<le> Ny P"
    and g: "in_grid P i j"
  shows "load (mem s) p i j = Some 0"
proof -
  have "allocated P (mem s) p" using m is_grid_zero_grid[OF n] by (simp add: allocated_def)
  from load_allocated[OF this, of i j] g have "load (mem s) p i j \<noteq> None"
    by (simp add: in_grid_def)
  with load_zero_grid[of "mem s" p P i j] m show ?thesis by blast
qed

lemma getColor_0: "getColor 0 = BLACK"
  by (simp add: getColor_def)

lemma replicate_snoc_nat:
  "0 \<le> k \<Longrightarrow> replicate (nat (k + 1)) x = replicate (nat k) x @ [x]"
  by (simp add: nat_add_distrib replicate_append_same)

lemma printWave_zero:
  assumes m: "mem s p = Some (zero_grid P)" and n: "0 \<le> Nx P" "0 \<le> Ny P"
  shows "printWave s p (Nx P) (Ny P) = Some (s\<lparr>terminal := terminal s @ [black_frame P]\<rparr>)"
proof -
  let ?inner = "\<lambda>i. for_loop 0 (Ny P) (\<lambda>j ln. do {
         v \<leftarrow> load (mem s) p i j;
         Some (ln @ [getColor v])
       }) []"
  have inner: "?inner i = Some (replicate (nat (Ny P)) BLACK)" if i: "0 \<le> i" "i < Nx P" for i
  proof -
    have "\<exists>ln. ?inner i = Some ln \<and> ln = replicate (nat (max 0 (Ny P))) BLACK"
    proof (rule for_loop_rule[where I = "\<lambda>j ln. ln = replicate (nat j) BLACK"])
      show "[] = replicate (nat 0) BLACK" by simp
    next
      fix k t assume k: "0 \<le> k" "k < Ny P" and t: "t = replicate (nat k) BLACK"
      have "in_grid P i k" using i k by (simp add: in_grid_def)
      from load_zero_grid_in[OF m n this]
      show "\<exists>t'. do {v \<leftarrow> load (mem s) p i k; Some (t @ [getColor v])} = Some t' \<and>
          t' = replicate (nat (k + 1)) BLACK"
        by (simp add: getColor_0 t replicate_snoc_nat[OF k(1)])
    qed
    then show ?thesis using n(2) by simp
  qed
  have "\<exists>fr. for_loop 0 (Nx P) (\<lambda>i fr. do {line \<leftarrow> ?inner i; Some (fr @ [line])}) [] = Some fr
      \<and> fr = replicate (nat (max 0 (Nx P))) (replicate (nat (Ny P)) BLACK)"
  proof (rule for_loop_rule[where
        I = "\<lambda>i fr. fr = replicate (nat i) (replicate (nat (Ny P)) BLACK)"])
    show "[] = replicate (nat 0) (replicate (nat (Ny P)) BLACK)" by simp
  next
    fix k t assume k: "0 \<le> k" "k < Nx P"
      and t: "t = replicate (nat k) (replicate (nat (Ny P)) BLACK)"
    show "\<exists>t'. do {line \<leftarrow> ?inner k; Some (t @ [line])} = Some t' \<and>
        t' = replicate (nat (k + 1)) (replicate (nat (Ny P)) BLACK)"
      by (simp add: inner[OF k] t replicate_snoc_nat[OF k(1)])
  qed
  then show ?thesis using n(1) by (auto simp: printWave_def black_frame_def)
qed

text \<open>
  With the source node on an edge or in a corner of the grid, the value of the pulse is
  overwritten in the same iteration by the edge loops or by the corner assignments, and
  zero levels stay zero.
\<close>

lemma time_step_zero_boundary:
  assumes v: "valid_state P s" and z: "all_zero P s"
    and n: "3 \<le> Nx P" "3 \<le> Ny P"
    and g: "in_grid P (xs1 P) (ys1 P)" and b: "\<not> interior P (xs1 P) (ys1 P)"
  shows "\<exists>s'. time_step P k s = Some s' \<and> valid_state P s' \<and> all_zero P s' \<and>
           terminal s' = terminal s @ [black_frame P]"
proof -
  from compute_next_chain[OF v n g, of k]
  obtain s1 s2 s3 s4 where c: "compute_next P k s = Some s4"
    and w: "writes P s s1 (interior P) (stencil P s)"
      "writes P s1 s2 (\<lambda>a b. a = xs1 P \<and> b = ys1 P) (\<lambda>a b. source P k)"
      "writes P s2 s3 (on_edge P) (boundary_value P s2)"
      "writes P s3 s4 (corner P) (corner_value P s3)"
    by blast
  define nx where "nx = Un_p1 s"
  have ptr: "Un_p1 s1 = nx" "Un_p1 s2 = nx" "Un_p1 s3 = nx" "Un_p1 s4 = nx"
    "Un0 s1 = Un0 s" "Un0 s2 = Un0 s" "Un0 s4 = Un0 s" "Un_m1 s4 = Un_m1 s"
    using w[THEN writes_ptrs(1)] w[THEN writes_ptrs(2)] w[THEN writes_ptrs(3)]
    by (simp_all add: nx_def)
  note Z = all_zero_levels[OF z]
  note o = w[THEN writes_only_next]
  have o2: "only_next s s2" by (rule only_next_trans[OF o(1) o(2)])
  have o4: "only_next s s4"
    by (rule only_next_trans[OF only_next_trans[OF o2 o(3)] o(4)])
  have ne: "Un0 s \<noteq> Un_p1 s" "Un_m1 s \<noteq> Un_p1 s" using v by (auto simp: valid_state_def)
  have cur2: "rd s2 (Un0 s) a b = 0" for a b
    using only_next_rd[OF o2 ne(1), of a b] by (simp add: Z)
  have r1: "rd s1 nx a b = 0" for a b
    using writes_rd_next[OF w(1), of a b] by (simp add: nx_def stencil_zero[OF z] Z)
  have r2: "rd s2 nx a b = (if a = xs1 P \<and> b = ys1 P then source P k else 0)" for a b
    using writes_rd_next[OF w(2), of a b] by (simp add: ptr r1)
  have r2i: "rd s2 nx a b = 0" if "interior P a b" for a b
    using that b by (auto simp: r2)
  have bv: "boundary_value P s2 a b = 0" if e: "on_edge P a b" for a b
  proof -
    from e consider "left_edge P a b" | "right_edge P a b" | "top_edge P a b"
      | "bottom_edge P a b"
      by (auto simp: on_edge_def)
    then have "\<exists>x y. interior P x y \<and>
        boundary_value P s2 a b = rd s2 (Un0 s) x y + (r * (rd s2 nx x y - rd s2 (Un0 s) a b))"
      if "r = (if left_edge P a b \<or> right_edge P a b then Rx P else Ry P)" for r
    proof cases
      case 1
      then have "interior P (a + 1) (b + 0)" using n by (simp add: left_edge_def interior_def)
      with 1 that show ?thesis by (auto simp: boundary_value_def edge_value_def ptr)
    next
      case 2
      then have i: "interior P (a + - 1) (b + 0)"
        using n by (simp add: right_edge_def interior_def)
      from 2 n have "\<not> left_edge P a b" by (simp add: right_edge_def left_edge_def)
      with 2 i that show ?thesis by (auto simp: boundary_value_def edge_value_def ptr)
    next
      case 3
      then have i: "interior P (a + 0) (b + - 1)"
        using n by (simp add: top_edge_def interior_def)
      from 3 n have "\<not> left_edge P a b" "\<not> right_edge P a b"
        by (simp_all add: top_edge_def left_edge_def right_edge_def)
      with 3 i that show ?thesis by (auto simp: boundary_value_def edge_value_def ptr)
    next
      case 4
      then have i: "interior P (a + 0) (b + 1)"
        using n by (simp add: bottom_edge_def interior_def)
      from 4 n have "\<not> left_edge P a b" "\<not> right_edge P a b" "\<not> top_edge P a b"
        by (simp_all add: bottom_edge_def left_edge_def right_edge_def top_edge_def)
      with 4 i that show ?thesis by (auto simp: boundary_value_def edge_value_def ptr)
    qed
    then obtain x y where "interior P x y"
      "boundary_value P s2 a b = rd s2 (Un0 s) x y
         + ((if left_edge P a b \<or> right_edge P a b then Rx P else Ry P)
            * (rd s2 nx x y - rd s2 (Un0 s) a b))"
      by blast
    then show ?thesis by (simp add: cur2 r2i)
  qed
  have r3: "rd s3 nx a b = (if on_edge P a b then 0 else rd s2 nx a b)" for a b
    using writes_rd_next[OF w(3), of a b] by (simp add: ptr bv)
  have r3e: "rd s3 nx a b = 0" if "on_edge P a b" for a b
    using that by (simp add: r3)
  have oe: "on_edge P 1 0" "on_edge P 0 1" "on_edge P (Nx P - 2) 0" "on_edge P (Nx P - 1) 1"
    "on_edge P (Nx P - 2) (Ny P - 1)" "on_edge P (Nx P - 1) (Ny P - 2)"
    "on_edge P 0 (Ny P - 2)" "on_edge P 1 (Ny P - 1)"
    using n by (auto simp: on_edge_def left_edge_def right_edge_def top_edge_def bottom_edge_def)
  have cv: "corner_value P s3 a b = 0" if "corner P a b" for a b
    using that oe[THEN r3e] by (auto simp: corner_def corner_value_def ptr)
  have r4: "rd s4 nx a b = (if corner P a b then 0 else rd s3 nx a b)" for a b
    using writes_rd_next[OF w(4), of a b] by (simp add: ptr cv)
  have zero4: "rd s4 nx a b = 0" if ab: "in_grid P a b" for a b
  proof -
    from grid_cases[OF n ab]
    consider "interior P a b" | "on_edge P a b" | "corner P a b" by blast
    then show ?thesis
    proof cases
      case 1
      then show ?thesis
        using interior_not_corner[OF 1] interior_not_on_edge[OF 1] by (simp add: r4 r3 r2i)
    next
      case 2
      then show ?thesis using on_edge_not_corner[OF 2] by (simp add: r4 r3)
    next
      case 3
      then show ?thesis by (simp add: r4)
    qed
  qed
  have v4: "valid_state P s4" by (rule writes_valid[OF w(4)])
  have m4: "mem s4 (Un_p1 s4) = Some (zero_grid P)"
  proof (rule zero_grid_eqI[OF valid_stateD(1)[OF v4]])
    fix a b assume ab: "in_grid P a b"
    from load_rd[OF valid_stateD(1)[OF v4] ab] zero4[OF ab]
    show "load (mem s4) (Un_p1 s4) a b = Some 0" by (simp add: ptr)
  qed
  have k4: "keeps_levels s s4" by (rule only_next_keeps_levels[OF v o4])
  from n have n0: "0 \<le> Nx P" "0 \<le> Ny P" by auto
  let ?s5 = "s4\<lparr>terminal := terminal s4 @ [black_frame P]\<rparr>"
  have pw: "printWave s4 (Un_p1 s4) (Nx P) (Ny P) = Some ?s5"
    by (rule printWave_zero[OF m4 n0])
  have t: "time_step P k s = Some (swap_references ?s5)"
    by (simp add: time_step_def c pw)
  have "valid_state P (swap_references ?s5)" by (rule valid_state_swap[OF v4])
  moreover have "all_zero P (swap_references ?s5)"
    using m4 k4 z by (simp add: all_zero_def keeps_levels_def)
  moreover have "terminal (swap_references ?s5) = terminal s @ [black_frame P]"
    using o4 by (simp add: only_next_def)
  ultimately show ?thesis using t by blast
qed

lemma time_marching_zero_boundary:
  assumes v: "valid_state P s" and z: "all_zero P s"
    and n: "3 \<le> Nx P" "3 \<le> Ny P"
    and g: "in_grid P (xs1 P) (ys1 P)" and b: "\<not> interior P (xs1 P) (ys1 P)"
  shows "\<exists>t. time_marching P s = Some t \<and> valid_state P t \<and> all_zero P t \<and>
           terminal t = terminal s @ replicate (nat (n_stop P)) (black_frame P)"
proof -
  let ?I = "\<lambda>i t. valid_state P t \<and> all_zero P t \<and>
           terminal t = terminal s @ replicate (nat i) (black_frame P)"
  have "\<exists>t. for_loop 0 (n_stop P) (time_step P) s = Some t \<and> ?I (max 0 (n_stop P)) t"
  proof (rule for_loop_rule[where I = ?I])
    show "?I 0 s" using v z by simp
  next
    fix i t assume i: "0 \<le> i" "i < n_stop P" and I: "?I i t"
    from I have vt: "valid_state P t" and zt: "all_zero P t" by simp_all
    from time_step_zero_boundary[OF vt zt n g b, of i]
    obtain t' where t': "time_step P i t = Some t'" "valid_state P t'" "all_zero P t'"
      "terminal t' = terminal t @ [black_frame P]" by blast
    have "terminal t' = terminal s @ replicate (nat (i + 1)) (black_frame P)"
      using I t'(4) by (simp add: replicate_snoc_nat[OF i(1)])
    with t' show "\<exists>t'. time_step P i t = Some t' \<and> ?I (i + 1) t'" by simp
  qed
  then show ?thesis by (auto simp: time_marching_def)
qed

lemma source_at_fields:
  "Nx (source_at x y) = 84" "Ny (source_at x y) = 84" "n_stop (source_at x y) = 150"
  "xs1 (source_at x y) = x" "ys1 (source_at x y) = y"
  using Nx_wave_sim_c Ny_wave_sim_c
  by (simp_all add: source_at_def Nx_def Ny_def) (simp add: wave_sim_c_def)

lemma black_frame_source_at: "black_frame (source_at x y) = replicate 84 (replicate 84 BLACK)"
  by (simp add: black_frame_def source_at_fields)

lemma main_source_on_boundary:
  assumes x: "0 \<le> x" "x < 84" and y: "0 \<le> y" "y < 84"
    and b: "x = 0 \<or> x = 83 \<or> y = 0 \<or> y = 83"
  shows "\<exists>t s. time_marching (source_at x y) (initial_state (source_at x y)) = Some t \<and>
           all_zero (source_at x y) t \<and>
           main junk (source_at x y) = Some (0, s) \<and>
           terminal s = replicate 150 (replicate 84 (replicate 84 BLACK))"
proof -
  let ?P = "source_at x y"
  have n: "3 \<le> Nx ?P" "3 \<le> Ny ?P" and n0: "0 \<le> Nx ?P" "0 \<le> Ny ?P"
    by (simp_all add: source_at_fields)
  have g: "in_grid ?P (xs1 ?P) (ys1 ?P)" using x y by (simp add: in_grid_def source_at_fields)
  have ni: "\<not> interior ?P (xs1 ?P) (ys1 ?P)"
    using b by (auto simp: interior_def source_at_fields)
  note st = startup_initial[OF n0, of junk]
  from time_marching_zero_boundary[OF valid_state_initial[OF n0] all_zero_initial n g ni]
  obtain t where t: "time_marching ?P (initial_state ?P) = Some t" "valid_state ?P t"
    "all_zero ?P t"
    "terminal t = terminal (initial_state ?P) @ replicate (nat (n_stop ?P)) (black_frame ?P)"
    by blast
  from t(2) obtain g1 g2 g3 where gs: "mem t (Un_p1 t) = Some g1" "int (length g1) = Nx ?P"
    "mem t (Un0 t) = Some g2" "int (length g2) = Nx ?P"
    "mem t (Un_m1 t) = Some g3" "int (length g3) = Nx ?P"
    and d: "Un0 t \<noteq> Un_p1 t" "Un_m1 t \<noteq> Un_p1 t" "Un_m1 t \<noteq> Un0 t"
    by (auto simp: valid_state_def allocated_def is_grid_def split: option.splits)
  let ?h1 = "(mem t)(Un_p1 t := None)"
  let ?h2 = "?h1(Un0 t := None)"
  let ?h3 = "?h2(Un_m1 t := None)"
  have f1: "free2DArray (mem t) (Un_p1 t) (Nx ?P) = Some ?h1"
    using gs by (simp add: free2DArray_def)
  have f2: "free2DArray ?h1 (Un0 t) (Nx ?P) = Some ?h2"
    using gs d by (simp add: free2DArray_def)
  have f3: "free2DArray ?h2 (Un_m1 t) (Nx ?P) = Some ?h3"
    using gs d by (simp add: free2DArray_def)
  have m: "main junk ?P = Some (0, t\<lparr>mem := ?h3\<rparr>)"
    by (simp add: main_def st t(1) f1 f2 f3)
  have "terminal (t\<lparr>mem := ?h3\<rparr>) = replicate 150 (replicate 84 (replicate 84 BLACK))"
    using t(4) by (simp add: initial_state_def source_at_fields black_frame_source_at)
  with t(1,3) m show ?thesis by blast
qed

text \<open>
  Claim C8, amended. The program checks no configuration. Take the configuration of the
  source (84 by 84 nodes, 150 steps) and move the source node to any node on the border
  of the grid, an edge node or a corner, where it is not strictly inside. The program
  does not reject this: \<^verbatim>\<open>main\<close> runs all 150 iterations of the time loop, printing one
  frame in each, and returns 0. In every iteration the edge loops or the corner
  assignments overwrite the value of the pulse, so all levels stay zero and every frame is
  black.
\<close>

theorem main_runs_with_source_on_border:
  assumes "0 \<le> x" and "x < 84" and "0 \<le> y" and "y < 84"
    and "x = 0 \<or> x = 83 \<or> y = 0 \<or> y = 83"
  shows "Nx (source_at x y) = 84 \<and> Ny (source_at x y) = 84 \<and>
         xs1 (source_at x y) = x \<and> ys1 (source_at x y) = y \<and>
         \<not> source_inside (source_at x y) \<and>
         (\<exists>t. time_marching (source_at x y) (initial_state (source_at x y)) = Some t \<and>
              all_zero (source_at x y) t) \<and>
         (\<exists>s. main junk (source_at x y) = Some (0, s) \<and>
              terminal s = replicate 150 (replicate 84 (replicate 84 BLACK)))"
proof -
  from main_source_on_boundary[OF assms, of junk]
  obtain t s where r: "time_marching (source_at x y) (initial_state (source_at x y)) = Some t"
    "all_zero (source_at x y) t" "main junk (source_at x y) = Some (0, s)"
    "terminal s = replicate 150 (replicate 84 (replicate 84 BLACK))"
    by blast
  have A: "\<exists>t. time_marching (source_at x y) (initial_state (source_at x y)) = Some t \<and>
              all_zero (source_at x y) t"
    using r(1,2) by blast
  have B: "\<exists>s. main junk (source_at x y) = Some (0, s) \<and>
              terminal s = replicate 150 (replicate 84 (replicate 84 BLACK))"
    using r(3,4) by blast
  have C: "\<not> source_inside (source_at x y)"
    using assms(5) by (auto simp: source_inside_def source_at_fields)
  from A B C source_at_fields(1,2,4,5)[of x y] show ?thesis by (intro conjI)
qed

theorem main_runs_with_source_on_border_witness:
  "(0 \<le> (0::int)) \<and>
   ((0::int) < 84) \<and>
   (0 \<le> (50::int)) \<and>
   ((50::int) < 84) \<and>
   ((0::int) = 0 \<or> (0::int) = 83 \<or> (50::int) = 0 \<or> (50::int) = 83) \<and>
   (Nx (source_at (0::int) (50::int)) = 84 \<and> Ny (source_at (0::int) (50::int)) = 84 \<and>
         xs1 (source_at (0::int) (50::int)) = (0::int) \<and> ys1 (source_at (0::int) (50::int)) = (50::int) \<and>
         \<not> source_inside (source_at (0::int) (50::int)) \<and>
         (\<exists>t. time_marching (source_at (0::int) (50::int)) (initial_state (source_at (0::int) (50::int))) = Some t \<and>
              all_zero (source_at (0::int) (50::int)) t) \<and>
         (\<exists>s. main (0::real) (source_at (0::int) (50::int)) = Some (0, s) \<and>
              terminal s = replicate 150 (replicate 84 (replicate 84 BLACK))))"
proof -
  have h1: "0 \<le> (0::int)"
    by simp
  have h2: "(0::int) < 84"
    by simp
  have h3: "0 \<le> (50::int)"
    by simp
  have h4: "(50::int) < 84"
    by simp
  have h5: "(0::int) = 0 \<or> (0::int) = 83 \<or> (50::int) = 0 \<or> (50::int) = 83"
    by simp
  note r = main_runs_with_source_on_border [OF h1 h2 h3 h4 h5, where junk = 0]
  show ?thesis
    by (rule conjI [OF h1 conjI [OF h2 conjI [OF h3 conjI [OF h4 conjI [OF h5 r]]]]])
qed

section \<open>Finite speed of propagation\<close>

lemma arrival_interior: "interior P i j \<Longrightarrow> arrival P i j = manhattan P i j + 1"
  by (simp add: arrival_def)

lemma arrival_edge: "on_edge P i j \<Longrightarrow> arrival P i j = manhattan P i j"
  by (simp add: arrival_def on_edge_not_interior)

lemma corner_not_interior: "corner P i j \<Longrightarrow> \<not> interior P i j"
  using interior_not_corner by blast

lemma corner_not_on_edge: "corner P i j \<Longrightarrow> \<not> on_edge P i j"
  using on_edge_not_corner by blast

lemma arrival_corner: "corner P i j \<Longrightarrow> arrival P i j = manhattan P i j - 1"
  by (simp add: arrival_def corner_not_interior corner_not_on_edge)

text \<open>A neighbour of an interior node is reached no earlier than one step before it.\<close>

lemma arrival_neighbour:
  assumes src: "source_inside P" and i: "interior P a b"
  shows "manhattan P a b \<le> arrival P (a + 1) b" "manhattan P a b \<le> arrival P (a - 1) b"
    "manhattan P a b \<le> arrival P a (b + 1)" "manhattan P a b \<le> arrival P a (b - 1)"
proof -
  from src have s: "0 < xs1 P" "xs1 P < Nx P - 1" "0 < ys1 P" "ys1 P < Ny P - 1"
    by (simp_all add: source_inside_def)
  from i have r: "1 \<le> a" "a \<le> Nx P - 2" "1 \<le> b" "b \<le> Ny P - 2"
    by (simp_all add: interior_def)
  show "manhattan P a b \<le> arrival P (a + 1) b"
  proof (cases "a + 1 \<le> Nx P - 2")
    case True
    with r have "interior P (a + 1) b" by (simp add: interior_def)
    then have "arrival P (a + 1) b = manhattan P (a + 1) b + 1" by (rule arrival_interior)
    then show ?thesis unfolding manhattan_def by arith
  next
    case False
    with r have e: "a + 1 = Nx P - 1" by simp
    with r have "right_edge P (a + 1) b" by (simp add: right_edge_def)
    then have "on_edge P (a + 1) b" by (simp add: on_edge_def)
    then have "arrival P (a + 1) b = manhattan P (a + 1) b" by (rule arrival_edge)
    then show ?thesis using e s r unfolding manhattan_def by arith
  qed
  show "manhattan P a b \<le> arrival P (a - 1) b"
  proof (cases "1 \<le> a - 1")
    case True
    with r have "interior P (a - 1) b" by (simp add: interior_def)
    then have "arrival P (a - 1) b = manhattan P (a - 1) b + 1" by (rule arrival_interior)
    then show ?thesis unfolding manhattan_def by arith
  next
    case False
    with r have e: "a - 1 = 0" by simp
    with r have "left_edge P (a - 1) b" by (simp add: left_edge_def)
    then have "on_edge P (a - 1) b" by (simp add: on_edge_def)
    then have "arrival P (a - 1) b = manhattan P (a - 1) b" by (rule arrival_edge)
    then show ?thesis using e s r unfolding manhattan_def by arith
  qed
  show "manhattan P a b \<le> arrival P a (b + 1)"
  proof (cases "b + 1 \<le> Ny P - 2")
    case True
    with r have "interior P a (b + 1)" by (simp add: interior_def)
    then have "arrival P a (b + 1) = manhattan P a (b + 1) + 1" by (rule arrival_interior)
    then show ?thesis unfolding manhattan_def by arith
  next
    case False
    with r have e: "b + 1 = Ny P - 1" by simp
    with r have "top_edge P a (b + 1)" by (simp add: top_edge_def)
    then have "on_edge P a (b + 1)" by (simp add: on_edge_def)
    then have "arrival P a (b + 1) = manhattan P a (b + 1)" by (rule arrival_edge)
    then show ?thesis using e s r unfolding manhattan_def by arith
  qed
  show "manhattan P a b \<le> arrival P a (b - 1)"
  proof (cases "1 \<le> b - 1")
    case True
    with r have "interior P a (b - 1)" by (simp add: interior_def)
    then have "arrival P a (b - 1) = manhattan P a (b - 1) + 1" by (rule arrival_interior)
    then show ?thesis unfolding manhattan_def by arith
  next
    case False
    with r have e: "b - 1 = 0" by simp
    with r have "bottom_edge P a (b - 1)" by (simp add: bottom_edge_def)
    then have "on_edge P a (b - 1)" by (simp add: on_edge_def)
    then have "arrival P a (b - 1) = manhattan P a (b - 1)" by (rule arrival_edge)
    then show ?thesis using e s r unfolding manhattan_def by arith
  qed
qed

lemma next_level_interior:
  "next_level P n cur prv new \<Longrightarrow> interior P a b \<Longrightarrow>
   new a b =
     (if a = xs1 P \<and> b = ys1 P then source P n
      else 2 * cur a b
             + Ox P * Ox P * (cur (a + 1) b - 2 * cur a b + cur (a - 1) b)
             + Oy P * Oy P * (cur a (b + 1) - 2 * cur a b + cur a (b - 1))
             - prv a b)"
  unfolding next_level_def by blast

lemma next_level_left_right:
  "next_level P n cur prv new \<Longrightarrow> 1 \<le> b \<Longrightarrow> b \<le> Ny P - 2 \<Longrightarrow>
   new 0 b = cur 1 b + Rx P * (new 1 b - cur 0 b) \<and>
   new (Nx P - 1) b = cur (Nx P - 2) b + Rx P * (new (Nx P - 2) b - cur (Nx P - 1) b)"
  unfolding next_level_def by blast

lemma next_level_top_bottom:
  "next_level P n cur prv new \<Longrightarrow> 1 \<le> a \<Longrightarrow> a \<le> Nx P - 2 \<Longrightarrow>
   new a (Ny P - 1) = cur a (Ny P - 2) + Ry P * (new a (Ny P - 2) - cur a (Ny P - 1)) \<and>
   new a 0 = cur a 1 + Ry P * (new a 1 - cur a 0)"
  unfolding next_level_def by blast

lemma next_level_corners:
  assumes "next_level P n cur prv new"
  shows "new 0 0 = 5 / 10 * (new 1 0 + new 0 1)"
    "new (Nx P - 1) 0 = 5 / 10 * (new (Nx P - 2) 0 + new (Nx P - 1) 1)"
    "new (Nx P - 1) (Ny P - 1) = 5 / 10 * (new (Nx P - 2) (Ny P - 1) + new (Nx P - 1) (Ny P - 2))"
    "new 0 (Ny P - 1) = 5 / 10 * (new 0 (Ny P - 2) + new 1 (Ny P - 1))"
  using assms unfolding next_level_def by blast+

lemma zero_beforeD: "zero_before P k lev \<Longrightarrow> in_grid P a b \<Longrightarrow> k < arrival P a b \<Longrightarrow> lev a b = 0"
  by (simp add: zero_before_def)

lemma causal_interior:
  assumes nl: "next_level P n cur prv new" and src: "source_inside P" and n0: "0 \<le> n"
    and zc: "zero_before P (n - 1) cur" and zp: "zero_before P (n - 2) prv"
    and i: "interior P a b" and k: "n < arrival P a b"
  shows "new a b = 0"
proof (cases "a = xs1 P \<and> b = ys1 P")
  case True
  then have "manhattan P a b = 0" by (simp add: manhattan_def)
  with k n0 i have "n = 0" by (simp add: arrival_interior)
  with next_level_interior[OF nl i] True show ?thesis by (simp add: source_at_0)
next
  case False
  from k i have m: "n \<le> manhattan P a b" by (simp add: arrival_interior)
  note g = interior_in_grid[OF i]
  note nb = arrival_neighbour[OF src i]
  have "cur a b = 0" by (rule zero_beforeD[OF zc g(1)]) (use k in simp)
  moreover have "cur (a + 1) b = 0" by (rule zero_beforeD[OF zc g(2)]) (use m nb(1) in simp)
  moreover have "cur (a - 1) b = 0" by (rule zero_beforeD[OF zc g(3)]) (use m nb(2) in simp)
  moreover have "cur a (b + 1) = 0" by (rule zero_beforeD[OF zc g(4)]) (use m nb(3) in simp)
  moreover have "cur a (b - 1) = 0" by (rule zero_beforeD[OF zc g(5)]) (use m nb(4) in simp)
  moreover have "prv a b = 0" by (rule zero_beforeD[OF zp g(1)]) (use k in simp)
  ultimately show ?thesis using next_level_interior[OF nl i] False by simp
qed

lemma causal_edge:
  assumes nl: "next_level P n cur prv new" and src: "source_inside P" and n0: "0 \<le> n"
    and zc: "zero_before P (n - 1) cur" and zp: "zero_before P (n - 2) prv"
    and e: "on_edge P a b" and k: "n < arrival P a b"
  shows "new a b = 0"
proof -
  from src have s: "0 < xs1 P" "xs1 P < Nx P - 1" "0 < ys1 P" "ys1 P < Ny P - 1"
    by (simp_all add: source_inside_def)
  note d = source_inside_dims[OF src]
  from d have n3: "3 \<le> Nx P" "3 \<le> Ny P" by auto
  note g = on_edge_in_grid[OF n3 e]
  from k have m: "n < manhattan P a b" by (simp add: arrival_edge[OF e])
  have c0: "cur a b = 0" by (rule zero_beforeD[OF zc g]) (use k in simp)
  have inner: "new x y = 0 \<and> cur x y = 0"
    if i: "interior P x y" and mm: "manhattan P x y + 1 = manhattan P a b" for x y
  proof -
    have ar: "n < arrival P x y" using m mm by (simp add: arrival_interior[OF i])
    have "new x y = 0" by (rule causal_interior[OF nl src n0 zc zp i ar])
    moreover have "cur x y = 0"
      by (rule zero_beforeD[OF zc interior_in_grid(1)[OF i]]) (use ar in simp)
    ultimately show ?thesis by simp
  qed
  from e consider "left_edge P a b" | "right_edge P a b" | "top_edge P a b" | "bottom_edge P a b"
    by (auto simp: on_edge_def)
  then show ?thesis
  proof cases
    case 1
    then have ab: "a = 0" "1 \<le> b" "b \<le> Ny P - 2" by (simp_all add: left_edge_def)
    have i: "interior P 1 b" using ab n3 by (simp add: interior_def)
    have "manhattan P 1 b + 1 = manhattan P a b" using ab s unfolding manhattan_def by arith
    from inner[OF i this] next_level_left_right[OF nl ab(2,3)] c0 ab(1)
    show ?thesis by simp
  next
    case 2
    then have ab: "a = Nx P - 1" "1 \<le> b" "b \<le> Ny P - 2" by (simp_all add: right_edge_def)
    have i: "interior P (Nx P - 2) b" using ab n3 by (simp add: interior_def)
    have "manhattan P (Nx P - 2) b + 1 = manhattan P a b"
      using ab s unfolding manhattan_def by arith
    from inner[OF i this] next_level_left_right[OF nl ab(2,3)] c0 ab(1)
    show ?thesis by simp
  next
    case 3
    then have ab: "b = Ny P - 1" "1 \<le> a" "a \<le> Nx P - 2" by (simp_all add: top_edge_def)
    have i: "interior P a (Ny P - 2)" using ab n3 by (simp add: interior_def)
    have "manhattan P a (Ny P - 2) + 1 = manhattan P a b"
      using ab s unfolding manhattan_def by arith
    from inner[OF i this] next_level_top_bottom[OF nl ab(2,3)] c0 ab(1)
    show ?thesis by simp
  next
    case 4
    then have ab: "b = 0" "1 \<le> a" "a \<le> Nx P - 2" by (simp_all add: bottom_edge_def)
    have i: "interior P a 1" using ab n3 by (simp add: interior_def)
    have "manhattan P a 1 + 1 = manhattan P a b" using ab s unfolding manhattan_def by arith
    from inner[OF i this] next_level_top_bottom[OF nl ab(2,3)] c0 ab(1)
    show ?thesis by simp
  qed
qed

lemma causal_corner:
  assumes nl: "next_level P n cur prv new" and src: "source_inside P" and n0: "0 \<le> n"
    and zc: "zero_before P (n - 1) cur" and zp: "zero_before P (n - 2) prv"
    and co: "corner P a b" and k: "n < arrival P a b"
  shows "new a b = 0"
proof -
  from src have s: "0 < xs1 P" "xs1 P < Nx P - 1" "0 < ys1 P" "ys1 P < Ny P - 1"
    by (simp_all add: source_inside_def)
  note d = source_inside_dims[OF src]
  from d have n3: "3 \<le> Nx P" "3 \<le> Ny P" by auto
  from k have m: "n < manhattan P a b - 1" by (simp add: arrival_corner[OF co])
  have edge: "new x y = 0" if e: "on_edge P x y" and mm: "manhattan P x y + 1 = manhattan P a b"
    for x y
    by (rule causal_edge[OF nl src n0 zc zp e]) (use m mm in \<open>simp add: arrival_edge[OF e]\<close>)
  have oe: "on_edge P 1 0" "on_edge P 0 1" "on_edge P (Nx P - 2) 0" "on_edge P (Nx P - 1) 1"
    "on_edge P (Nx P - 2) (Ny P - 1)" "on_edge P (Nx P - 1) (Ny P - 2)"
    "on_edge P 0 (Ny P - 2)" "on_edge P 1 (Ny P - 1)"
    using n3 by (auto simp: on_edge_def left_edge_def right_edge_def top_edge_def bottom_edge_def)
  note cs = next_level_corners[OF nl]
  from co consider "a = 0 \<and> b = 0" | "a = Nx P - 1 \<and> b = 0" | "a = Nx P - 1 \<and> b = Ny P - 1"
    | "a = 0 \<and> b = Ny P - 1"
    by (auto simp: corner_def)
  then show ?thesis
  proof cases
    case 1
    have "manhattan P 1 0 + 1 = manhattan P a b" "manhattan P 0 1 + 1 = manhattan P a b"
      using 1 s unfolding manhattan_def by arith+
    from edge[OF oe(1) this(1)] edge[OF oe(2) this(2)] cs(1) 1 show ?thesis by simp
  next
    case 2
    have "manhattan P (Nx P - 2) 0 + 1 = manhattan P a b"
      "manhattan P (Nx P - 1) 1 + 1 = manhattan P a b"
      using 2 s unfolding manhattan_def by arith+
    from edge[OF oe(3) this(1)] edge[OF oe(4) this(2)] cs(2) 2 show ?thesis by simp
  next
    case 3
    have "manhattan P (Nx P - 2) (Ny P - 1) + 1 = manhattan P a b"
      "manhattan P (Nx P - 1) (Ny P - 2) + 1 = manhattan P a b"
      using 3 s unfolding manhattan_def by arith+
    from edge[OF oe(5) this(1)] edge[OF oe(6) this(2)] cs(3) 3 show ?thesis by simp
  next
    case 4
    have "manhattan P 0 (Ny P - 2) + 1 = manhattan P a b"
      "manhattan P 1 (Ny P - 1) + 1 = manhattan P a b"
      using 4 s unfolding manhattan_def by arith+
    from edge[OF oe(7) this(1)] edge[OF oe(8) this(2)] cs(4) 4 show ?thesis by simp
  qed
qed

lemma causal_step:
  assumes nl: "next_level P n cur prv new" and src: "source_inside P" and n0: "0 \<le> n"
    and zc: "zero_before P (n - 1) cur" and zp: "zero_before P (n - 2) prv"
  shows "zero_before P n new"
  unfolding zero_before_def
proof (intro allI impI)
  fix a b assume ab: "in_grid P a b \<and> n < arrival P a b"
  note d = source_inside_dims[OF src]
  from d have n3: "3 \<le> Nx P" "3 \<le> Ny P" by auto
  from grid_cases[OF n3, of a b] ab
  consider "interior P a b" | "on_edge P a b" | "corner P a b" by blast
  then show "new a b = 0"
  proof cases
    case 1
    from causal_interior[OF nl src n0 zc zp 1] ab show ?thesis by simp
  next
    case 2
    from causal_edge[OF nl src n0 zc zp 2] ab show ?thesis by simp
  next
    case 3
    from causal_corner[OF nl src n0 zc zp 3] ab show ?thesis by simp
  qed
qed

lemma zero_before_zero: "zero_before P k (\<lambda>a b. 0)"
  by (simp add: zero_before_def)

lemma zero_before_mono: "zero_before P k lev \<Longrightarrow> k \<le> k' \<Longrightarrow> zero_before P k' lev"
  by (auto simp: zero_before_def)

lemma first_steps_causal:
  assumes v: "valid_state P s" and z: "all_zero P s" and src: "source_inside P"
  shows "\<exists>t. first_steps P k s = Some t \<and> valid_state P t \<and>
           zero_before P (max 0 k - 1) (rd t (Un0 t)) \<and>
           zero_before P (max 0 k - 2) (rd t (Un_m1 t))"
  unfolding first_steps_def
proof (rule for_loop_rule[where I = "\<lambda>i t. valid_state P t \<and>
           zero_before P (i - 1) (rd t (Un0 t)) \<and> zero_before P (i - 2) (rd t (Un_m1 t))"])
  show "valid_state P s \<and> zero_before P (0 - 1) (rd s (Un0 s)) \<and>
      zero_before P (0 - 2) (rd s (Un_m1 s))"
    using v by (simp add: all_zero_levels[OF z] zero_before_zero)
next
  fix i t
  assume i: "0 \<le> i" "i < k"
    and I: "valid_state P t \<and> zero_before P (i - 1) (rd t (Un0 t)) \<and>
      zero_before P (i - 2) (rd t (Un_m1 t))"
  from time_step_next_level[of P t i] I src
  obtain t' where t': "time_step P i t = Some t'" "valid_state P t'"
    "rd t' (Un_m1 t') = rd t (Un0 t)"
    "next_level P i (rd t (Un0 t)) (rd t (Un_m1 t)) (rd t' (Un0 t'))"
    by blast
  from I have zc: "zero_before P (i - 1) (rd t (Un0 t))"
    and zp: "zero_before P (i - 2) (rd t (Un_m1 t))" by simp_all
  have "zero_before P i (rd t' (Un0 t'))"
    by (rule causal_step[OF t'(4) src i(1) zc zp])
  with t' zc
  show "\<exists>t'. time_step P i t = Some t' \<and> valid_state P t' \<and>
      zero_before P (i + 1 - 1) (rd t' (Un0 t')) \<and> zero_before P (i + 1 - 2) (rd t' (Un_m1 t'))"
    by simp
qed

lemma chebyshev_le_arrival:
  assumes src: "source_inside P" and g: "in_grid P i j"
  shows "chebyshev P i j \<le> arrival P i j"
proof -
  from src have s: "0 < xs1 P" "xs1 P < Nx P - 1" "0 < ys1 P" "ys1 P < Ny P - 1"
    by (simp_all add: source_inside_def)
  note d = source_inside_dims[OF src]
  from d have n3: "3 \<le> Nx P" "3 \<le> Ny P" by auto
  from grid_cases[OF n3 g]
  consider "interior P i j" | "on_edge P i j" | "corner P i j" by blast
  then show ?thesis
  proof cases
    case 1
    then show ?thesis unfolding arrival_interior[OF 1] chebyshev_def manhattan_def by arith
  next
    case 2
    then show ?thesis unfolding arrival_edge[OF 2] chebyshev_def manhattan_def by arith
  next
    case 3
    then have "(i = 0 \<or> i = Nx P - 1) \<and> (j = 0 \<or> j = Ny P - 1)" by (simp add: corner_def)
    then show ?thesis
      using s unfolding arrival_corner[OF 3] chebyshev_def manhattan_def by arith
  qed
qed

text \<open>
  Claim C9, amended. Let the source be strictly inside the grid (the grid centre is) and
  all levels zero at the start. A node at Chebyshev distance \<open>d\<close> from the source is
  zero in the level that step \<open>n\<close> computes, for every step \<open>n\<close> with
  \<open>0 \<le> n < d\<close>: the field advances by at most one node per step.
\<close>

theorem zero_until_reached:
  assumes "valid_state P s" and "all_zero P s" and "source_inside P"
    and "in_grid P i j" and "0 \<le> n" and "n < chebyshev P i j"
  shows "\<exists>t. first_steps P (n + 1) s = Some t \<and> load (mem t) (Un0 t) i j = Some 0"
proof -
  from first_steps_causal[OF assms(1-3), of "n + 1"]
  obtain t where t: "first_steps P (n + 1) s = Some t" "valid_state P t"
    "zero_before P (max 0 (n + 1) - 1) (rd t (Un0 t))"
    by blast
  from assms(5) have "max 0 (n + 1) - 1 = n" by simp
  with t(3) have z: "zero_before P n (rd t (Un0 t))" by simp
  have "n < arrival P i j"
    using chebyshev_le_arrival[OF assms(3,4)] assms(6) by simp
  from zero_beforeD[OF z assms(4) this] load_rd[OF valid_stateD(2)[OF t(2)] assms(4)]
  have "load (mem t) (Un0 t) i j = Some 0" by simp
  with t(1) show ?thesis by blast
qed

section \<open>The front of the pulse on a grid of 7 by 7 nodes\<close>

lemma for_loop_snoc:
  "lo \<le> n \<Longrightarrow> for_loop lo (n + 1) body s = Option.bind (for_loop lo n body s) (body n)"
proof (induction lo n body s rule: for_loop.induct)
  case (1 i n body s)
  show ?case
  proof (cases "i < n")
    case True
    show ?thesis
    proof (cases "body i s")
      case None
      then show ?thesis using True
        by (simp add: for_loop.simps[of i "n + 1"] for_loop.simps[of i n])
    next
      case (Some s')
      from "1.IH"[OF True Some] True
      have "for_loop (i + 1) (n + 1) body s' = Option.bind (for_loop (i + 1) n body s') (body n)"
        by simp
      then show ?thesis using True Some
        by (simp add: for_loop.simps[of i "n + 1"] for_loop.simps[of i n])
    qed
  next
    case False
    with "1.prems" have e: "i = n" by simp
    show ?thesis
      by (cases "body n s")
        (simp_all add: e for_loop.simps[of n "n + 1"] for_loop.simps[of n n]
          for_loop.simps[of "n + 1" "n + 1"])
  qed
qed

lemma first_steps_0: "first_steps P 0 s = Some s"
  by (simp add: first_steps_def for_loop.simps[of 0 0])

lemma first_steps_Suc:
  "0 \<le> k \<Longrightarrow> first_steps P (k + 1) s = Option.bind (first_steps P k s) (time_step P k)"
  by (simp add: first_steps_def for_loop_snoc)

lemma sqrt_two_over_square:
  assumes "0 < (d::real)"
  shows "sqrt (1 / (d * d) + 1 / (d * d)) = sqrt 2 / d"
proof -
  have "1 / (d * d) + 1 / (d * d) = 2 / (d * d)" by simp
  then have "sqrt (1 / (d * d) + 1 / (d * d)) = sqrt 2 / sqrt (d * d)"
    by (simp only: real_sqrt_divide)
  also have "sqrt (d * d) = d" using assms by simp
  finally show ?thesis .
qed

lemma cdt_square_grid:
  assumes d: "0 < dx P" "dy P = dx P" and c: "c P \<noteq> 0"
  shows "of_int (c P) * dt P = dx P / sqrt 2"
proof -
  have "dt P = 1 / (of_int (c P) * (sqrt 2 / dx P))"
    unfolding dt_def d(2) by (simp only: sqrt_two_over_square[OF d(1)])
  then show ?thesis using c d(1) by simp
qed

lemma grid7_fields:
  "dx grid7 = 12 / 10 ^ 8" "dy grid7 = 12 / 10 ^ 8" "c grid7 = 299792458"
  "l grid7 = 1 / 10 ^ 6" "amplitude grid7 = 1"
  by (simp_all add: grid7_def wave_sim_c_def)

lemma cdt_grid7: "of_int (c grid7) * dt grid7 = dx grid7 / sqrt 2"
  by (rule cdt_square_grid) (simp_all add: grid7_fields)

lemma Ox_grid7: "Ox grid7 = 1 / sqrt 2"
  unfolding Ox_def cdt_grid7 by (simp add: grid7_fields)

lemma Oy_grid7: "Oy grid7 = 1 / sqrt 2"
  unfolding Oy_def cdt_grid7 by (simp add: grid7_fields)

lemma sqrt2_gt_1: "1 < sqrt (2::real)"
  by simp

lemma Rx_grid7: "Rx grid7 \<noteq> 0"
proof -
  have d: "0 < dx grid7" by (simp add: grid7_fields)
  have "dx grid7 / sqrt 2 < dx grid7"
    using d sqrt2_gt_1 by (simp add: field_simps)
  moreover have "0 < dx grid7 / sqrt 2 + dx grid7" using d by (simp add: add_pos_pos)
  ultimately show ?thesis unfolding Rx_def cdt_grid7 by simp
qed

lemma source_grid7_1: "0 < source grid7 1"
proof -
  let ?x = "((2 * pi * of_int (c grid7)) / l grid7) * (of_int 1 * dt grid7)"
  have "?x = 2 * pi * (of_int (c grid7) * dt grid7) / l grid7" by simp
  also have "\<dots> = pi * (24 / 100 / sqrt 2)"
    unfolding cdt_grid7 by (simp add: grid7_fields)
  finally have x: "?x = pi * (24 / 100 / sqrt 2)" .
  have r1: "0 < (24::real) / 100 / sqrt 2" by simp
  have "(24::real) / 100 < sqrt 2" using sqrt2_gt_1 by linarith
  then have r2: "(24::real) / 100 / sqrt 2 < 1" by (simp add: divide_less_eq)
  note r = r1 r2
  have "0 < ?x" unfolding x using r(1) by simp
  moreover have "?x < pi" unfolding x using r(2) pi_gt_zero
    by (metis mult.right_neutral mult_strict_left_mono)
  ultimately have "0 < sin ?x" by (rule sin_gt_zero)
  then show ?thesis unfolding source_def by (simp add: grid7_fields)
qed

lemma bound_grid7: "4 < 3 * min (dx grid7) (dy grid7) / (of_int (c grid7) * dt grid7)"
proof -
  have "(4 / 3)\<^sup>2 < (2::real)" by (simp add: power2_eq_square)
  then have "4 / 3 < sqrt (2::real)" by (rule real_less_rsqrt)
  then have "4 < 3 * sqrt (2::real)" by simp
  moreover have "3 * min (dx grid7) (dy grid7) / (of_int (c grid7) * dt grid7) = 3 * sqrt 2"
    unfolding cdt_grid7 by (simp add: grid7_fields)
  ultimately show ?thesis by simp
qed

lemma interior_grid7: "interior grid7 a b \<longleftrightarrow> 1 \<le> a \<and> a \<le> 5 \<and> 1 \<le> b \<and> b \<le> 5"
  by (simp add: interior_def Nx_grid7 Ny_grid7)

lemma in_grid_grid7: "in_grid grid7 a b \<longleftrightarrow> 0 \<le> a \<and> a < 7 \<and> 0 \<le> b \<and> b < 7"
  by (simp add: in_grid_def Nx_grid7 Ny_grid7)

lemma arrival_grid7:
  "arrival grid7 3 3 = 1" "arrival grid7 4 3 = 2" "arrival grid7 5 3 = 3"
  "arrival grid7 4 4 = 3" "arrival grid7 4 2 = 3" "arrival grid7 5 4 = 4"
  "arrival grid7 5 2 = 4" "arrival grid7 6 3 = 3"
  by (simp_all add: arrival_def interior_grid7 manhattan_def source_grid7 on_edge_def
      left_edge_def right_edge_def top_edge_def bottom_edge_def Nx_grid7 Ny_grid7)

text \<open>
  The front of the pulse on the grid of 7 by 7 nodes: the value that step 1 writes to the
  source node \<open>(3, 3)\<close> reaches the node \<open>(4, 3)\<close> in step 2, the node \<open>(5, 3)\<close> in
  step 3, and in the same step 3 the edge node \<open>(6, 3)\<close>.
\<close>

lemma front_grid7:
  "\<exists>t. first_steps grid7 4 (initial_state grid7) = Some t \<and>
       load (mem t) (Un0 t) 6 3 = Some (Rx grid7 * (Ox grid7 * Ox grid7 * (Ox grid7 * Ox grid7 * source grid7 1)))"
proof -
  let ?P = grid7
  let ?s = "initial_state grid7"
  note src = source_inside_grid7
  note z = all_zero_initial[of ?P]
  note Z = all_zero_levels[OF z]
  have zb0: "zero_before ?P k (rd ?s (Un0 ?s))" "zero_before ?P k (rd ?s (Un_m1 ?s))" for k
    by (simp_all add: Z zero_before_zero)
  \<comment> \<open>step 0\<close>
  from time_step_next_level[OF valid_grid7 src, of 0]
  obtain t1 where t1: "time_step ?P 0 ?s = Some t1" "valid_state ?P t1"
    "rd t1 (Un_m1 t1) = rd ?s (Un0 ?s)"
    "next_level ?P 0 (rd ?s (Un0 ?s)) (rd ?s (Un_m1 ?s)) (rd t1 (Un0 t1))"
    by blast
  define U1 where "U1 = rd t1 (Un0 t1)"
  have z1: "zero_before ?P 0 U1"
    unfolding U1_def by (rule causal_step[OF t1(4) src _ zb0]) simp
  have p1: "zero_before ?P (- 1) (rd t1 (Un_m1 t1))" by (simp add: t1(3) zb0)
  \<comment> \<open>step 1\<close>
  from time_step_next_level[OF t1(2) src, of 1]
  obtain t2 where t2: "time_step ?P 1 t1 = Some t2" "valid_state ?P t2"
    "rd t2 (Un_m1 t2) = U1"
    "next_level ?P 1 U1 (rd t1 (Un_m1 t1)) (rd t2 (Un0 t2))"
    unfolding U1_def by blast
  define U2 where "U2 = rd t2 (Un0 t2)"
  have z2: "zero_before ?P 1 U2"
    unfolding U2_def by (rule causal_step[OF t2(4) src]) (simp_all add: z1 p1)
  have s2: "U2 3 3 = source ?P 1"
    using next_level_interior[OF t2(4), of 3 3]
    by (simp add: U2_def interior_grid7 source_grid7)
  \<comment> \<open>step 2\<close>
  from time_step_next_level[OF t2(2) src, of 2]
  obtain t3 where t3: "time_step ?P 2 t2 = Some t3" "valid_state ?P t3"
    "rd t3 (Un_m1 t3) = U2"
    "next_level ?P 2 U2 U1 (rd t3 (Un0 t3))"
    unfolding U2_def t2(3) by blast
  define U3 where "U3 = rd t3 (Un0 t3)"
  have z3: "zero_before ?P 2 U3"
    unfolding U3_def by (rule causal_step[OF t3(4) src]) (simp_all add: z2 z1)
  have u2: "U2 4 3 = 0" "U2 5 3 = 0" "U2 4 4 = 0" "U2 4 2 = 0"
    by (rule zero_beforeD[OF z2], simp add: in_grid_grid7, simp add: arrival_grid7)+
  have u1: "U1 4 3 = 0"
    by (rule zero_beforeD[OF z1], simp add: in_grid_grid7, simp add: arrival_grid7)
  have s3: "U3 4 3 = Ox ?P * Ox ?P * source ?P 1"
    using next_level_interior[OF t3(4), of 4 3]
    by (simp add: U3_def interior_grid7 source_grid7 u2 u1 s2)
  \<comment> \<open>step 3\<close>
  from time_step_next_level[OF t3(2) src, of 3]
  obtain t4 where t4: "time_step ?P 3 t3 = Some t4" "valid_state ?P t4"
    "next_level ?P 3 U3 U2 (rd t4 (Un0 t4))"
    unfolding U3_def t3(3) by blast
  define U4 where "U4 = rd t4 (Un0 t4)"
  have u3: "U3 5 3 = 0" "U3 6 3 = 0" "U3 5 4 = 0" "U3 5 2 = 0"
    by (rule zero_beforeD[OF z3], simp add: in_grid_grid7, simp add: arrival_grid7)+
  have s4: "U4 5 3 = Ox ?P * Ox ?P * (Ox ?P * Ox ?P * source ?P 1)"
    using next_level_interior[OF t4(3), of 5 3]
    by (simp add: U4_def interior_grid7 source_grid7 u3 u2 s3)
  have e4: "U4 6 3 = Rx ?P * (Ox ?P * Ox ?P * (Ox ?P * Ox ?P * source ?P 1))"
    using next_level_left_right[OF t4(3), of 3]
    by (simp add: U4_def[symmetric] Nx_grid7 Ny_grid7 u3 s4)
  \<comment> \<open>the run\<close>
  have f1: "first_steps ?P 1 ?s = Some t1"
    using first_steps_Suc[of 0 ?P ?s] by (simp add: first_steps_0 t1(1))
  have f2: "first_steps ?P 2 ?s = Some t2"
    using first_steps_Suc[of 1 ?P ?s] by (simp add: f1 t2(1))
  have f3: "first_steps ?P 3 ?s = Some t3"
    using first_steps_Suc[of 2 ?P ?s] by (simp add: f2 t3(1))
  have f4: "first_steps ?P 4 ?s = Some t4"
    using first_steps_Suc[of 3 ?P ?s] by (simp add: f3 t4(1))
  have "load (mem t4) (Un0 t4) 6 3 = Some (U4 6 3)"
    unfolding U4_def by (rule load_rd[OF valid_stateD(2)[OF t4(2)]]) (simp add: in_grid_grid7)
  with f4 e4 show ?thesis by simp
qed

text \<open>
  Claim C9 says that a node at Chebyshev distance \<open>d\<close> from the source is zero in every
  step \<open>n < d min(dx, dy) / (c dt)\<close>. On the grid of 7 by 7 nodes with the source at its
  centre \<open>(3, 3)\<close> the node \<open>(6, 3)\<close> is at distance 3 and the bound exceeds 4, but
  the level that step 3 computes (the fourth step) holds a nonzero value there.
\<close>

theorem causality_counterexample:
  "xs1 grid7 = 3 \<and> ys1 grid7 = 3 \<and> Nx grid7 = 7 \<and> Ny grid7 = 7 \<and>
   chebyshev grid7 6 3 = 3 \<and>
   4 < 3 * min (dx grid7) (dy grid7) / (of_int (c grid7) * dt grid7) \<and>
   Option.bind (first_steps grid7 4 (initial_state grid7)) (\<lambda>t. load (mem t) (Un0 t) 6 3)
     = Some (Rx grid7 * (Ox grid7 * Ox grid7 * (Ox grid7 * Ox grid7 * source grid7 1))) \<and>
   Rx grid7 * (Ox grid7 * Ox grid7 * (Ox grid7 * Ox grid7 * source grid7 1)) \<noteq> 0"
proof -
  from front_grid7 obtain t where t: "first_steps grid7 4 (initial_state grid7) = Some t"
    "load (mem t) (Un0 t) 6 3
       = Some (Rx grid7 * (Ox grid7 * Ox grid7 * (Ox grid7 * Ox grid7 * source grid7 1)))"
    by blast
  have A: "Option.bind (first_steps grid7 4 (initial_state grid7)) (\<lambda>t. load (mem t) (Un0 t) 6 3)
     = Some (Rx grid7 * (Ox grid7 * Ox grid7 * (Ox grid7 * Ox grid7 * source grid7 1)))"
    by (simp add: t)
  have B: "Rx grid7 * (Ox grid7 * Ox grid7 * (Ox grid7 * Ox grid7 * source grid7 1)) \<noteq> 0"
    using Rx_grid7 source_grid7_1 by (simp add: Ox_grid7)
  have C: "chebyshev grid7 6 3 = 3" by (simp add: chebyshev_def source_grid7)
  from A B C bound_grid7 source_grid7 Nx_grid7 Ny_grid7 show ?thesis by (intro conjI)
qed

lemma chebyshev_grid7_6_3: "chebyshev grid7 6 3 = 3"
  by (simp add: chebyshev_def source_grid7)

theorem zero_until_reached_witness:
  "(valid_state grid7 (initial_state grid7)) \<and>
   (all_zero grid7 (initial_state grid7)) \<and>
   (source_inside grid7) \<and>
   (in_grid grid7 6 3) \<and>
   (0 \<le> (2::int)) \<and>
   ((2::int) < chebyshev grid7 6 3) \<and>
   (\<exists>t. first_steps grid7 ((2::int) + 1) (initial_state grid7) = Some t \<and> load (mem t) (Un0 t) 6 3 = Some 0)"
proof -
  have h1: "valid_state grid7 (initial_state grid7)"
    by (simp_all add: valid_grid7 all_zero_initial source_inside_grid7 in_grid_grid7 chebyshev_grid7_6_3)
  have h2: "all_zero grid7 (initial_state grid7)"
    by (simp_all add: valid_grid7 all_zero_initial source_inside_grid7 in_grid_grid7 chebyshev_grid7_6_3)
  have h3: "source_inside grid7"
    by (simp_all add: valid_grid7 all_zero_initial source_inside_grid7 in_grid_grid7 chebyshev_grid7_6_3)
  have h4: "in_grid grid7 6 3"
    by (simp_all add: valid_grid7 all_zero_initial source_inside_grid7 in_grid_grid7 chebyshev_grid7_6_3)
  have h5: "0 \<le> (2::int)"
    by (simp_all add: valid_grid7 all_zero_initial source_inside_grid7 in_grid_grid7 chebyshev_grid7_6_3)
  have h6: "(2::int) < chebyshev grid7 6 3"
    by (simp_all add: valid_grid7 all_zero_initial source_inside_grid7 in_grid_grid7 chebyshev_grid7_6_3)
  note r = zero_until_reached [OF h1 h2 h3 h4 h5 h6]
  show ?thesis
    by (rule conjI [OF h1 conjI [OF h2 conjI [OF h3 conjI [OF h4 conjI [OF h5 conjI [OF h6 r]]]]]])
qed

end
